theory Spec2Isabelle
  imports Main "HOL-Library.Word"
begin

unbundle bit_operations_syntax

section \<open>Data model of shd-epoll.c\<close>

subsection \<open>Watch flags (enum \<open>_EpollWatchFlags\<close>)\<close>

text \<open>
  The enumerators are the single bits \<open>1 << n\<close> of a 32-bit \<open>int\<close>; a test
  \<open>flags & EWF_X\<close> in a C condition is \<open>flags AND EWF_X \<noteq> 0\<close>.
\<close>

definition EWF_NONE :: "32 word" where "EWF_NONE = 0"
definition EWF_ACTIVE :: "32 word" where "EWF_ACTIVE = push_bit 0 1"
definition EWF_READABLE :: "32 word" where "EWF_READABLE = push_bit 1 1"
definition EWF_WAITINGREAD :: "32 word" where "EWF_WAITINGREAD = push_bit 2 1"
definition EWF_READCHANGED :: "32 word" where "EWF_READCHANGED = push_bit 3 1"
definition EWF_WRITEABLE :: "32 word" where "EWF_WRITEABLE = push_bit 4 1"
definition EWF_WAITINGWRITE :: "32 word" where "EWF_WAITINGWRITE = push_bit 5 1"
definition EWF_WRITECHANGED :: "32 word" where "EWF_WRITECHANGED = push_bit 6 1"
definition EWF_CLOSED :: "32 word" where "EWF_CLOSED = push_bit 7 1"
definition EWF_WATCHING :: "32 word" where "EWF_WATCHING = push_bit 8 1"
definition EWF_EDGETRIGGER :: "32 word" where "EWF_EDGETRIGGER = push_bit 9 1"
definition EWF_EDGETRIGGER_REPORTED :: "32 word" where "EWF_EDGETRIGGER_REPORTED = push_bit 10 1"
definition EWF_ONESHOT :: "32 word" where "EWF_ONESHOT = push_bit 11 1"
definition EWF_ONESHOT_REPORTED :: "32 word" where "EWF_ONESHOT_REPORTED = push_bit 12 1"

subsection \<open>Epoll flags (enum \<open>_EpollFlags\<close>)\<close>

definition EF_NONE :: "32 word" where "EF_NONE = 0"
definition EF_SCHEDULED :: "32 word" where "EF_SCHEDULED = push_bit 0 1"
definition EF_NOTIFYING :: "32 word" where "EF_NOTIFYING = push_bit 1 1"
definition EF_CLOSED :: "32 word" where "EF_CLOSED = push_bit 2 1"

subsection \<open>Constants of the system headers\<close>

text \<open>
  \<open>struct epoll_event\<close>, the event bits and the control operations come from
  \<open><sys/epoll.h>\<close>, the error numbers from \<open><errno.h>\<close> (Linux values).
\<close>

record epoll_event =
  events :: "32 word"
  data :: "64 word"

definition EPOLLIN :: "32 word" where "EPOLLIN = 1"
definition EPOLLOUT :: "32 word" where "EPOLLOUT = 4"
definition EPOLLONESHOT :: "32 word" where "EPOLLONESHOT = push_bit 30 1"
definition EPOLLET :: "32 word" where "EPOLLET = push_bit 31 1"

definition EPOLL_CTL_ADD :: int where "EPOLL_CTL_ADD = 1"
definition EPOLL_CTL_DEL :: int where "EPOLL_CTL_DEL = 2"
definition EPOLL_CTL_MOD :: int where "EPOLL_CTL_MOD = 3"

definition ENOENT :: int where "ENOENT = 2"
definition EEXIST :: int where "EEXIST = 17"

subsection \<open>Descriptor status\<close>

text \<open>
  Modelled from the spec: the type \<open>DescriptorStatus\<close> and its bits \<open>DS_ACTIVE\<close>,
  \<open>DS_READABLE\<close>, \<open>DS_WRITABLE\<close>, \<open>DS_CLOSED\<close> are declared in \<open>shadow.h\<close>, which is not
  part of the sources at hand. The spec gives \<open>get-status(d)\<close> as the four status bits
  active, readable, writable and closed; a test \<open>status & DS_X\<close> reads the field.
\<close>

record DescriptorStatus =
  DS_ACTIVE :: bool
  DS_READABLE :: bool
  DS_WRITABLE :: bool
  DS_CLOSED :: bool

subsection \<open>The watch and the epoll\<close>

text \<open>
  A \<open>Descriptor*\<close> is represented by the descriptor's handle, which is also the key of
  the watch table (\<open>g_int_hash\<close> on \<open>descriptor_getHandleReference\<close>).
\<close>

record EpollWatch =
  descriptor :: int
  event :: epoll_event
  flags :: "32 word"
  referenceCount :: int

text \<open>
  \<open>struct _Epoll\<close>. The embedded \<open>Descriptor super\<close> contributes its handle and its
  status; the field \<open>flags\<close> is named \<open>epoll_flags\<close> here, as the watch has a field
  \<open>flags\<close> as well. The table \<open>watching\<close> is a list of key and watch in the order the
  hash table iterator yields them. \<open>ownerProcess\<close> is only passed to the process layer,
  whose answers are inputs of the model (record \<open>Env\<close> below).
\<close>

record Epoll =
  super_handle :: int
  super_status :: DescriptorStatus
  epoll_flags :: "32 word"
  watching :: "(int \<times> EpollWatch) list"
  osEpollDescriptor :: int

section \<open>The watch: refresh and readiness\<close>

text \<open>
  \<open>_epollwatch_updateStatus\<close>. The first argument is \<open>descriptor_getStatus\<close>, the
  current status of every descriptor. The local \<open>lazyFlags\<close>, the reset of
  \<open>watch->flags\<close> to 0 and the successive \<open>|=\<close> are kept in the order of the source.
\<close>

definition epollwatch_updateStatus :: "(int \<Rightarrow> DescriptorStatus) \<Rightarrow> EpollWatch \<Rightarrow> EpollWatch" where
  "epollwatch_updateStatus descriptor_getStatus watch =
    (let lazyFlags = 0
           OR (if flags watch AND EWF_READCHANGED \<noteq> 0 then EWF_READCHANGED else EWF_NONE)
           OR (if flags watch AND EWF_WRITECHANGED \<noteq> 0 then EWF_WRITECHANGED else EWF_NONE)
           OR (if flags watch AND EWF_WATCHING \<noteq> 0 then EWF_WATCHING else EWF_NONE)
           OR (if flags watch AND EWF_EDGETRIGGER_REPORTED \<noteq> 0 then EWF_EDGETRIGGER_REPORTED else EWF_NONE)
           OR (if flags watch AND EWF_ONESHOT_REPORTED \<noteq> 0 then EWF_ONESHOT_REPORTED else EWF_NONE);
         oldFlags = flags watch;
         status = descriptor_getStatus (descriptor watch);
         f1 = 0
           OR (if DS_ACTIVE status then EWF_ACTIVE else EWF_NONE)
           OR (if DS_READABLE status then EWF_READABLE else EWF_NONE)
           OR (if DS_WRITABLE status then EWF_WRITEABLE else EWF_NONE)
           OR (if DS_CLOSED status then EWF_CLOSED else EWF_NONE)
           OR (if events (event watch) AND EPOLLIN \<noteq> 0 then EWF_WAITINGREAD else EWF_NONE)
           OR (if events (event watch) AND EPOLLOUT \<noteq> 0 then EWF_WAITINGWRITE else EWF_NONE)
           OR (if events (event watch) AND EPOLLET \<noteq> 0 then EWF_EDGETRIGGER else EWF_NONE)
           OR (if events (event watch) AND EPOLLONESHOT \<noteq> 0 then EWF_ONESHOT else EWF_NONE);
         f2 = f1 OR lazyFlags;
         f3 = (if (oldFlags AND EWF_READABLE) \<noteq> (f2 AND EWF_READABLE)
               then f2 OR EWF_READCHANGED else f2);
         f4 = (if (oldFlags AND EWF_WRITEABLE) \<noteq> (f3 AND EWF_WRITEABLE)
               then f3 OR EWF_WRITECHANGED else f3)
     in watch\<lparr>flags := f4\<rparr>)"

text \<open>
  \<open>_epollwatch_isReady\<close> returns the refreshed watch (the C function mutates it) and the
  \<open>gboolean\<close> result.
\<close>

definition epollwatch_isReady :: "(int \<Rightarrow> DescriptorStatus) \<Rightarrow> EpollWatch \<Rightarrow> EpollWatch \<times> bool" where
  "epollwatch_isReady descriptor_getStatus watch0 =
    (let watch = epollwatch_updateStatus descriptor_getStatus watch0 in
     if flags watch AND EWF_CLOSED \<noteq> 0 \<or> \<not> (flags watch AND EWF_ACTIVE \<noteq> 0)
        \<or> \<not> (flags watch AND EWF_WATCHING \<noteq> 0)
     then (watch, False)
     else
       let hasReadEvent = (flags watch AND EWF_READABLE \<noteq> 0 \<and> flags watch AND EWF_WAITINGREAD \<noteq> 0);
           hasWriteEvent = (flags watch AND EWF_WRITEABLE \<noteq> 0 \<and> flags watch AND EWF_WAITINGWRITE \<noteq> 0);
           isReady0 =
             (if flags watch AND EWF_EDGETRIGGER \<noteq> 0
              then
                (let r1 = (if hasReadEvent \<and> (flags watch AND EWF_READCHANGED \<noteq> 0
                                \<or> \<not> (flags watch AND EWF_EDGETRIGGER_REPORTED \<noteq> 0))
                           then True else False)
                 in if hasWriteEvent \<and> (flags watch AND EWF_WRITECHANGED \<noteq> 0
                                \<or> \<not> (flags watch AND EWF_EDGETRIGGER_REPORTED \<noteq> 0))
                    then True else r1)
              else (if hasReadEvent \<or> hasWriteEvent then True else False));
           isReady = (if isReady0 \<and> flags watch AND EWF_ONESHOT \<noteq> 0
                         \<and> flags watch AND EWF_ONESHOT_REPORTED \<noteq> 0
                      then False else isReady0)
       in (watch, isReady))"

section \<open>The environment of the epoll\<close>

text \<open>
  The answers of the external calls a function makes are inputs of the model. One \<open>Env\<close>
  holds the answers for one entry into the epoll code:
  \<^item> \<open>epoll_ctl_readiness\<close>, \<open>epoll_wait_readiness\<close>: the results of \<open>epoll_ctl\<close>
    and \<open>epoll_wait\<close> on the temporary \<open>readinessFD\<close> in \<open>_epoll_isReadyOS\<close>;
  \<^item> \<open>epoll_wait_os space\<close>: the result \<open>nos\<close> of
    \<open>epoll_wait(osEpollDescriptor, osEvents, space, 0)\<close> and the array \<open>osEvents\<close> after it;
  \<^item> \<open>process_wantsNotify\<close>, \<open>process_isRunning\<close>, \<open>worker_scheduleTask\<close>: the
    results of these calls.
\<close>

record Env =
  epoll_ctl_readiness :: int
  epoll_wait_readiness :: int
  epoll_wait_os :: "int \<Rightarrow> int \<times> (nat \<Rightarrow> epoll_event)"
  process_wantsNotify :: bool
  worker_scheduleTask :: bool
  process_isRunning :: bool

text \<open>System calls, logged in the order the code makes them.\<close>

datatype os_call =
    SYS_epoll_create
  | SYS_epoll_ctl_add
  | SYS_epoll_wait_readinessFD
  | SYS_epoll_ctl_del
  | SYS_close_readinessFD
  | SYS_epoll_wait_osEpollDescriptor int

text \<open>
  The state the code reads and writes: the epoll itself and, outside it,
  \<^item> \<open>descriptor_status\<close>: what \<open>descriptor_getStatus\<close> returns for each descriptor;
  \<^item> \<open>epoll_listeners\<close>: the descriptors on which this epoll is registered by
    \<open>descriptor_addEpollListener\<close>;
  \<^item> \<open>tasks\<close>: the notify tasks of this epoll that the scheduler holds
    (\<open>worker_scheduleTask\<close> succeeded, \<open>_epoll_tryNotify\<close> not yet entered);
  \<^item> \<open>host_closes\<close>: how often \<open>host_closeDescriptor\<close> was called for this epoll, that
    is how often \<open>_epoll_close\<close> ran;
  \<^item> \<open>os_calls\<close>: the system calls made so far.
\<close>

record World =
  epoll :: Epoll
  descriptor_status :: "int \<Rightarrow> DescriptorStatus"
  epoll_listeners :: "int set"
  tasks :: nat
  host_closes :: nat
  os_calls :: "os_call list"

text \<open>
  \<open>epoll_new\<close>: \<open>g_new0\<close> zeroes the flags, the table is empty, the status is
  \<open>DS_ACTIVE\<close> only; \<open>osfd\<close> is what \<open>epoll_create(1000)\<close> returned.
\<close>

definition epoll_new :: "int \<Rightarrow> int \<Rightarrow> Epoll" where
  "epoll_new handle osfd =
    \<lparr>super_handle = handle,
     super_status = \<lparr>DS_ACTIVE = True, DS_READABLE = False, DS_WRITABLE = False, DS_CLOSED = False\<rparr>,
     epoll_flags = 0, watching = [], osEpollDescriptor = osfd\<rparr>"

definition world_new :: "int \<Rightarrow> int \<Rightarrow> (int \<Rightarrow> DescriptorStatus) \<Rightarrow> World" where
  "world_new handle osfd status =
    \<lparr>epoll = epoll_new handle osfd, descriptor_status = status, epoll_listeners = {},
     tasks = 0, host_closes = 0, os_calls = []\<rparr>"

subsection \<open>The watch table (a GHashTable keyed by handle)\<close>

definition g_hash_table_lookup :: "(int \<times> EpollWatch) list \<Rightarrow> int \<Rightarrow> EpollWatch option" where
  "g_hash_table_lookup table key = map_of table key"

text \<open>A new key is appended: the position of a new entry in the iteration order is not specified by GLib.\<close>

fun g_hash_table_replace :: "(int \<times> EpollWatch) list \<Rightarrow> int \<Rightarrow> EpollWatch \<Rightarrow> (int \<times> EpollWatch) list" where
  "g_hash_table_replace [] key v = [(key, v)]"
| "g_hash_table_replace ((k, x) # rest) key v =
     (if k = key then (key, v) # rest else (k, x) # g_hash_table_replace rest key v)"

fun g_hash_table_remove :: "(int \<times> EpollWatch) list \<Rightarrow> int \<Rightarrow> (int \<times> EpollWatch) list" where
  "g_hash_table_remove [] key = []"
| "g_hash_table_remove ((k, x) # rest) key =
     (if k = key then rest else (k, x) # g_hash_table_remove rest key)"

text \<open>
  A write through the pointer that \<open>g_hash_table_lookup\<close> returned: the entry found
  for the key is changed in place.
\<close>

fun watch_store :: "(int \<times> EpollWatch) list \<Rightarrow> int \<Rightarrow> EpollWatch \<Rightarrow> (int \<times> EpollWatch) list" where
  "watch_store [] key v = []"
| "watch_store ((k, x) # rest) key v =
     (if k = key then (k, v) # rest else (k, x) # watch_store rest key v)"

section \<open>Closing\<close>

text \<open>\<open>epoll_clearWatchListeners\<close>: the loop over the table.\<close>

fun epoll_clearWatchListeners_loop :: "(int \<times> EpollWatch) list \<Rightarrow> int set \<Rightarrow> int set" where
  "epoll_clearWatchListeners_loop [] ls = ls"
| "epoll_clearWatchListeners_loop ((key, watch) # rest) ls =
     epoll_clearWatchListeners_loop rest (ls - {descriptor watch})"

definition epoll_clearWatchListeners :: "World \<Rightarrow> World" where
  "epoll_clearWatchListeners w =
    w\<lparr>epoll_listeners := epoll_clearWatchListeners_loop (watching (epoll w)) (epoll_listeners w)\<rparr>"

text \<open>
  \<open>_epoll_close\<close>: the listeners are removed and the host is told to stop tracking
  the epoll. The reference counts of the watches, the descriptors and the epoll, and
  \<open>_epoll_free\<close>, which the descriptor layer calls when the last reference to the
  epoll is dropped, are not part of the model.
\<close>

definition epoll_close :: "World \<Rightarrow> World" where
  "epoll_close w =
    (let w1 = epoll_clearWatchListeners w
     in w1\<lparr>host_closes := host_closes w1 + 1\<rparr>)"

text \<open>\<open>_epoll_tryToClose\<close>, the \<open>close\<close> entry of the function table.\<close>

definition epoll_tryToClose :: "World \<Rightarrow> World" where
  "epoll_tryToClose w =
    (let w1 = w\<lparr>epoll := (epoll w)\<lparr>epoll_flags := epoll_flags (epoll w) OR EF_CLOSED\<rparr>\<rparr>;
         isScheduled = (epoll_flags (epoll w1) AND EF_SCHEDULED \<noteq> 0)
     in if \<not> isScheduled then epoll_close w1 else w1)"

section \<open>The notification check\<close>

text \<open>\<open>_epoll_isReadyOS\<close>.\<close>

definition epoll_isReadyOS :: "Env \<Rightarrow> World \<Rightarrow> World \<times> bool" where
  "epoll_isReadyOS env w =
    (if osEpollDescriptor (epoll w) \<ge> 3 then
       (let ret = epoll_ctl_readiness env in
        if ret = 0 then
          (let ret2 = epoll_wait_readiness env;
               isReady = (if ret2 > 0 then True else False)
           in (w\<lparr>os_calls := os_calls w @ [SYS_epoll_create, SYS_epoll_ctl_add,
                   SYS_epoll_wait_readinessFD, SYS_epoll_ctl_del, SYS_close_readinessFD]\<rparr>, isReady))
        else (w\<lparr>os_calls := os_calls w @ [SYS_epoll_create, SYS_epoll_ctl_add,
                   SYS_close_readinessFD]\<rparr>, False))
     else (w, False))"

text \<open>The loop of \<open>_epoll_check\<close> over the table: it stops at the first ready watch.\<close>

fun epoll_check_loop ::
  "(int \<Rightarrow> DescriptorStatus) \<Rightarrow> (int \<times> EpollWatch) list \<Rightarrow> (int \<times> EpollWatch) list \<times> bool" where
  "epoll_check_loop g [] = ([], False)"
| "epoll_check_loop g ((key, watch0) # rest) =
     (let (watch, r) = epollwatch_isReady g watch0 in
      if r then ((key, watch) # rest, True)
      else (let (rest', isReady) = epoll_check_loop g rest in ((key, watch) # rest', isReady)))"

text \<open>
  \<open>_epoll_check\<close>. \<open>descriptor_adjustStatus\<close> on the epoll's own descriptor sets or
  clears its readable bit. A task that \<open>worker_scheduleTask\<close> accepted is held by the
  scheduler.
\<close>

definition epoll_check :: "Env \<Rightarrow> World \<Rightarrow> World" where
  "epoll_check env w =
    (if epoll_flags (epoll w) AND EF_CLOSED \<noteq> 0 \<or> epoll_flags (epoll w) AND EF_NOTIFYING \<noteq> 0
     then w
     else
       (let (table, childReady) = epoll_check_loop (descriptor_status w) (watching (epoll w));
            w1 = w\<lparr>epoll := (epoll w)\<lparr>watching := table\<rparr>\<rparr>;
            (w2, isReady) = (if \<not> childReady then epoll_isReadyOS env w1 else (w1, True))
        in if isReady then
             (let w3 = w2\<lparr>epoll := (epoll w2)\<lparr>super_status := (super_status (epoll w2))\<lparr>DS_READABLE := True\<rparr>\<rparr>\<rparr>
              in if \<not> (epoll_flags (epoll w3) AND EF_SCHEDULED \<noteq> 0) \<and> process_wantsNotify env
                 then (if worker_scheduleTask env
                       then w3\<lparr>epoll := (epoll w3)\<lparr>epoll_flags := epoll_flags (epoll w3) OR EF_SCHEDULED\<rparr>,
                               tasks := tasks w3 + 1\<rparr>
                       else w3)
                 else w3)
           else w2\<lparr>epoll := (epoll w2)\<lparr>super_status := (super_status (epoll w2))\<lparr>DS_READABLE := False\<rparr>\<rparr>\<rparr>))"

section \<open>Control\<close>

text \<open>
  \<open>epoll_control\<close>. The \<open>event\<close> pointer may be \<open>NULL\<close> (\<open>None\<close>). The result is
  \<open>None\<close> where a \<open>utility_assert\<close> fails (in \<open>_epollwatch_new\<close> for ADD, in the MOD
  case), otherwise the new state and the returned \<open>gint\<close>. The watch that
  \<open>_epollwatch_new\<close> returns has zeroed flags and one reference.
\<close>

definition epoll_control ::
  "Env \<Rightarrow> World \<Rightarrow> int \<Rightarrow> int \<Rightarrow> epoll_event option \<Rightarrow> (World \<times> int) option" where
  "epoll_control env w operation d ev =
    (let found = g_hash_table_lookup (watching (epoll w)) d in
     if operation = EPOLL_CTL_ADD then
       (case found of
          Some _ \<Rightarrow> Some (w, EEXIST)
        | None \<Rightarrow>
           (case ev of
              None \<Rightarrow> None
            | Some e \<Rightarrow>
               (let watch0 = \<lparr>descriptor = d, event = e, flags = 0, referenceCount = 1\<rparr>;
                    watch = watch0\<lparr>flags := flags watch0 OR EWF_WATCHING\<rparr>;
                    w1 = w\<lparr>epoll := (epoll w)\<lparr>watching :=
                            g_hash_table_replace (watching (epoll w)) (descriptor watch) watch\<rparr>\<rparr>;
                    w2 = w1\<lparr>epoll_listeners := insert (descriptor watch) (epoll_listeners w1)\<rparr>
                in Some (epoll_check env w2, 0))))
     else if operation = EPOLL_CTL_MOD then
       (case found of
          None \<Rightarrow> Some (w, ENOENT)
        | Some watch \<Rightarrow>
           (case ev of
              None \<Rightarrow> None
            | Some e \<Rightarrow>
               if \<not> (flags watch AND EWF_WATCHING \<noteq> 0) then None
               else
                 (let watch1 = watch\<lparr>event := e\<rparr>;
                      watch2 = watch1\<lparr>flags := flags watch1 AND NOT EWF_EDGETRIGGER_REPORTED\<rparr>;
                      watch3 = watch2\<lparr>flags := flags watch2 AND NOT EWF_ONESHOT_REPORTED\<rparr>;
                      w1 = w\<lparr>epoll := (epoll w)\<lparr>watching := watch_store (watching (epoll w)) d watch3\<rparr>\<rparr>
                  in Some (epoll_check env w1, 0))))
     else if operation = EPOLL_CTL_DEL then
       (case found of
          None \<Rightarrow> Some (w, ENOENT)
        | Some watch \<Rightarrow>
           (let watch1 = watch\<lparr>flags := flags watch AND NOT EWF_WATCHING\<rparr>;
                w1 = w\<lparr>epoll_listeners := epoll_listeners w - {descriptor watch1}\<rparr>;
                w2 = w1\<lparr>epoll := (epoll w1)\<lparr>watching :=
                        g_hash_table_remove (watching (epoll w1)) (descriptor watch1)\<rparr>\<rparr>
            in Some (w2, 0)))
     else Some (w, 0))"

section \<open>Collecting events\<close>

text \<open>
  The body of \<open>if(_epollwatch_isReady(watch))\<close> in the loop of \<open>epoll_getEvents\<close>: the
  event written to \<open>eventArray[eventIndex]\<close> and the watch with its flags updated.
\<close>

definition epoll_getEvents_report :: "EpollWatch \<Rightarrow> EpollWatch \<times> epoll_event" where
  "epoll_getEvents_report watch =
    (let ev0 = (event watch)\<lparr>events := 0\<rparr>;
         ev1 = (if flags watch AND EWF_READABLE \<noteq> 0 \<and> flags watch AND EWF_WAITINGREAD \<noteq> 0
                then ev0\<lparr>events := events ev0 OR EPOLLIN\<rparr> else ev0);
         ev2 = (if flags watch AND EWF_WRITEABLE \<noteq> 0 \<and> flags watch AND EWF_WAITINGWRITE \<noteq> 0
                then ev1\<lparr>events := events ev1 OR EPOLLOUT\<rparr> else ev1);
         ev3 = (if flags watch AND EWF_EDGETRIGGER \<noteq> 0
                then ev2\<lparr>events := events ev2 OR EPOLLET\<rparr> else ev2);
         watch1 = watch\<lparr>flags := flags watch AND NOT EWF_READCHANGED\<rparr>;
         watch2 = watch1\<lparr>flags := flags watch1 AND NOT EWF_WRITECHANGED\<rparr>;
         watch3 = (if flags watch2 AND EWF_EDGETRIGGER \<noteq> 0
                   then watch2\<lparr>flags := flags watch2 OR EWF_EDGETRIGGER_REPORTED\<rparr> else watch2);
         watch4 = (if flags watch3 AND EWF_ONESHOT \<noteq> 0
                   then watch3\<lparr>flags := flags watch3 OR EWF_ONESHOT_REPORTED\<rparr> else watch3)
     in (watch4, ev3))"

text \<open>
  The loop of \<open>epoll_getEvents\<close> over the table, from \<open>eventIndex\<close>. It returns the
  table and the events written, each with the key of its watch. The assertion
  \<open>eventIndex <= eventArrayLength\<close> after the increment holds by the loop condition.
\<close>

fun epoll_getEvents_loop ::
  "(int \<Rightarrow> DescriptorStatus) \<Rightarrow> int \<Rightarrow> int \<Rightarrow> (int \<times> EpollWatch) list
    \<Rightarrow> (int \<times> EpollWatch) list \<times> (int \<times> epoll_event) list" where
  "epoll_getEvents_loop g eventArrayLength eventIndex [] = ([], [])"
| "epoll_getEvents_loop g eventArrayLength eventIndex ((key, watch0) # rest) =
     (if eventIndex < eventArrayLength then
        (let (watch, r) = epollwatch_isReady g watch0 in
         if r then
           (let (watch', ev) = epoll_getEvents_report watch;
                (rest', out) = epoll_getEvents_loop g eventArrayLength (eventIndex + 1) rest
            in ((key, watch') # rest', (key, ev) # out))
         else
           (let (rest', out) = epoll_getEvents_loop g eventArrayLength eventIndex rest
            in ((key, watch) # rest', out)))
      else ((key, watch0) # rest, []))"

text \<open>
  \<open>epoll_getEvents\<close>. The result is the new state, the watches reported (key and
  event, in order), the contents written to \<open>eventArray\<close> and \<open>*nEvents\<close>; the C
  function itself always returns 0. It is \<open>None\<close> where the behaviour is undefined
  (a negative \<open>space\<close> as the size of \<open>osEvents\<close>) or the assertion in the copy loop
  fails (\<open>nos\<close> larger than \<open>space\<close>).
\<close>

definition epoll_getEvents ::
  "Env \<Rightarrow> World \<Rightarrow> int \<Rightarrow> (World \<times> (int \<times> epoll_event) list \<times> epoll_event list \<times> int) option" where
  "epoll_getEvents env w eventArrayLength =
    (let (table, reported) =
           epoll_getEvents_loop (descriptor_status w) eventArrayLength 0 (watching (epoll w));
         eventIndex = int (length reported);
         w1 = w\<lparr>epoll := (epoll w)\<lparr>watching := table\<rparr>\<rparr>;
         space = eventArrayLength - eventIndex
     in if space \<noteq> 0 then
          (if space < 0 then None
           else
             (let (nos, osEvents) = epoll_wait_os env space;
                  w2 = w1\<lparr>os_calls := os_calls w1 @ [SYS_epoll_wait_osEpollDescriptor space]\<rparr>
              in if nos > space then None
                 else
                   (let copied = map osEvents [0..<nat nos]
                    in Some (epoll_check env w2, reported, map snd reported @ copied,
                             eventIndex + int (length copied)))))
        else Some (epoll_check env w1, reported, map snd reported, eventIndex))"

section \<open>Status changes and the notify task\<close>

text \<open>\<open>epoll_descriptorStatusChanged\<close>; \<open>None\<close> where the assertion fails.\<close>

definition epoll_descriptorStatusChanged :: "Env \<Rightarrow> World \<Rightarrow> int \<Rightarrow> World option" where
  "epoll_descriptorStatusChanged env w d =
    (case g_hash_table_lookup (watching (epoll w)) d of
       None \<Rightarrow> None
     | Some watch \<Rightarrow> if descriptor watch = d then Some (epoll_check env w) else None)"

text \<open>The loop of \<open>_epoll_tryNotify\<close>: every watch is evaluated.\<close>

fun epoll_tryNotify_loop ::
  "(int \<Rightarrow> DescriptorStatus) \<Rightarrow> bool \<Rightarrow> (int \<times> EpollWatch) list \<Rightarrow> (int \<times> EpollWatch) list \<times> bool" where
  "epoll_tryNotify_loop g isReady [] = ([], isReady)"
| "epoll_tryNotify_loop g isReady ((key, watch0) # rest) =
     (let (watch, r) = epollwatch_isReady g watch0;
          (rest', isReady') = epoll_tryNotify_loop g (if r then True else isReady) rest
      in ((key, watch) # rest', isReady'))"

text \<open>
  \<open>_epoll_tryNotify\<close> up to the call of \<open>process_continue\<close>. The result is \<open>None\<close>
  where the assertion on \<open>process_wantsNotify\<close> fails; the \<open>bool\<close> tells whether
  \<open>process_continue\<close> is entered (with \<open>EF_NOTIFYING\<close> set) or the function has
  returned. The blocks under \<open>#ifdef DEBUG\<close> are not part of the model.
\<close>

definition epoll_tryNotify_enter :: "Env \<Rightarrow> World \<Rightarrow> (World \<times> bool) option" where
  "epoll_tryNotify_enter env w =
    (let w1 = w\<lparr>epoll := (epoll w)\<lparr>epoll_flags := epoll_flags (epoll w) AND NOT EF_SCHEDULED\<rparr>\<rparr>;
         isClosed = (epoll_flags (epoll w1) AND EF_CLOSED \<noteq> 0)
     in if isClosed \<or> \<not> process_isRunning env then Some (epoll_close w1, False)
        else
          (let (table, childReady) =
                 epoll_tryNotify_loop (descriptor_status w1) False (watching (epoll w1));
               w2 = w1\<lparr>epoll := (epoll w1)\<lparr>watching := table\<rparr>\<rparr>;
               (w3, isReady) = (if \<not> childReady then epoll_isReadyOS env w2 else (w2, True))
           in if isReady then
                (if \<not> process_wantsNotify env then None
                 else Some (w3\<lparr>epoll := (epoll w3)\<lparr>epoll_flags :=
                                 epoll_flags (epoll w3) OR EF_NOTIFYING\<rparr>\<rparr>, True))
              else Some (w3, False)))"

text \<open>\<open>_epoll_tryNotify\<close> after \<open>process_continue\<close> has returned.\<close>

definition epoll_tryNotify_return :: "Env \<Rightarrow> World \<Rightarrow> World" where
  "epoll_tryNotify_return env w =
    epoll_check env (w\<lparr>epoll := (epoll w)\<lparr>epoll_flags := epoll_flags (epoll w) AND NOT EF_NOTIFYING\<rparr>\<rparr>)"

text \<open>
  \<open>_epoll_tryNotify\<close> as a whole. \<open>process_continue\<close> runs the application, which may
  call back into the epoll: it is a function on the state (\<open>None\<close> when it aborts).
  \<open>env\<close> answers the calls before it, \<open>env'\<close> those of the final \<open>_epoll_check\<close>.
\<close>

definition epoll_tryNotify ::
  "Env \<Rightarrow> Env \<Rightarrow> (World \<Rightarrow> World option) \<Rightarrow> World \<Rightarrow> World option" where
  "epoll_tryNotify env env' process_continue w =
    (case epoll_tryNotify_enter env w of
       None \<Rightarrow> None
     | Some (w1, False) \<Rightarrow> Some w1
     | Some (w1, True) \<Rightarrow>
        (case process_continue w1 of
           None \<Rightarrow> None
         | Some w2 \<Rightarrow> Some (epoll_tryNotify_return env' w2)))"

section \<open>Runs\<close>

text \<open>
  What can happen to one epoll, one entry into its code at a time:
  \<^item> the application calls \<open>epoll_control\<close>, \<open>epoll_getEvents\<close> or closes the epoll
    (\<open>_epoll_tryToClose\<close>);
  \<^item> a descriptor changes its status and calls \<open>epoll_descriptorStatusChanged\<close> on the
    epoll if the epoll listens to it;
  \<^item> the scheduler runs a notify task (\<open>_epoll_tryNotify\<close> up to \<open>process_continue\<close>);
  \<^item> \<open>process_continue\<close> returns into \<open>_epoll_tryNotify\<close>.
  Between the last two, the actions of the application are those of the continuation.

  Modelled from the spec: the host's descriptor table and the descriptor layer are not
  part of the sources at hand. By the spec, \<open>close-descriptor(host, handle)\<close> initiates
  descriptor-table removal, so the application reaches the epoll by its handle only
  while \<open>host_closes\<close> is 0; and a descriptor whose status changes invokes the
  registered callback \<open>status-changed\<close> on the epoll, synchronously with the change.
  The scheduler takes a task out of its queue when it runs it. A step is \<open>None\<close> when
  the action cannot happen in this state or the code aborts on an assertion.
\<close>

datatype action =
    Control int int "epoll_event option"
  | GetEvents int
  | Close
  | StatusChanged int DescriptorStatus
  | TaskRun
  | ContinueReturn

fun step :: "Env \<Rightarrow> World \<Rightarrow> action \<Rightarrow> World option" where
  "step env w (Control operation d ev) =
     (if host_closes w \<noteq> 0 then None
      else map_option fst (epoll_control env w operation d ev))"
| "step env w (GetEvents eventArrayLength) =
     (if host_closes w \<noteq> 0 then None
      else map_option fst (epoll_getEvents env w eventArrayLength))"
| "step env w Close =
     (if host_closes w \<noteq> 0 then None else Some (epoll_tryToClose w))"
| "step env w (StatusChanged d s) =
     (let w1 = w\<lparr>descriptor_status := (descriptor_status w)(d := s)\<rparr>
      in if d \<in> epoll_listeners w1 then epoll_descriptorStatusChanged env w1 d else Some w1)"
| "step env w TaskRun =
     (if tasks w = 0 \<or> epoll_flags (epoll w) AND EF_NOTIFYING \<noteq> 0 then None
      else map_option fst (epoll_tryNotify_enter env (w\<lparr>tasks := tasks w - 1\<rparr>)))"
| "step env w ContinueReturn =
     (if epoll_flags (epoll w) AND EF_NOTIFYING \<noteq> 0 then Some (epoll_tryNotify_return env w)
      else None)"

fun run :: "World \<Rightarrow> (Env \<times> action) list \<Rightarrow> World option" where
  "run w [] = Some w"
| "run w ((env, a) # rest) =
     (case step env w a of None \<Rightarrow> None | Some w' \<Rightarrow> run w' rest)"

section \<open>Predicates of the statements\<close>

text \<open>
  The readiness rule in the words of the spec (section 4.2), on the flags of a watch
  after the refresh.
\<close>

definition spec_candidate_read :: "32 word \<Rightarrow> bool" where
  "spec_candidate_read f = (f AND EWF_READABLE \<noteq> 0 \<and> f AND EWF_WAITINGREAD \<noteq> 0)"

definition spec_candidate_write :: "32 word \<Rightarrow> bool" where
  "spec_candidate_write f = (f AND EWF_WRITEABLE \<noteq> 0 \<and> f AND EWF_WAITINGWRITE \<noteq> 0)"

definition spec_isReady :: "32 word \<Rightarrow> bool" where
  "spec_isReady f =
    ((f AND EWF_ACTIVE \<noteq> 0 \<and> f AND EWF_CLOSED = 0 \<and> f AND EWF_WATCHING \<noteq> 0)
     \<and> (spec_candidate_read f \<or> spec_candidate_write f)
     \<and> (if f AND EWF_EDGETRIGGER \<noteq> 0
         then (spec_candidate_read f \<and> (f AND EWF_READCHANGED \<noteq> 0 \<or> f AND EWF_EDGETRIGGER_REPORTED = 0))
            \<or> (spec_candidate_write f \<and> (f AND EWF_WRITECHANGED \<noteq> 0 \<or> f AND EWF_EDGETRIGGER_REPORTED = 0))
         else True)
     \<and> \<not> (f AND EWF_ONESHOT \<noteq> 0 \<and> f AND EWF_ONESHOT_REPORTED \<noteq> 0))"

text \<open>
  The state of the table that the code maintains: one entry per key, every entry
  under the handle of its descriptor and with \<open>EWF_WATCHING\<close> set.
\<close>

definition watch_table_inv :: "World \<Rightarrow> bool" where
  "watch_table_inv w =
    (distinct (map fst (watching (epoll w)))
     \<and> (\<forall>(k, x) \<in> set (watching (epoll w)). descriptor x = k \<and> flags x AND EWF_WATCHING \<noteq> 0))"

text \<open>The number of \<open>epoll_wait\<close> calls on the OS epoll descriptor in a log of system calls.\<close>

fun is_os_wait :: "os_call \<Rightarrow> bool" where
  "is_os_wait (SYS_epoll_wait_osEpollDescriptor space) = True"
| "is_os_wait _ = False"

definition os_waits :: "os_call list \<Rightarrow> nat" where
  "os_waits calls = length (filter is_os_wait calls)"

text \<open>
  What the table holds apart from the cached flags: the keys in iteration order and,
  per watch, the descriptor, the subscription and whether \<open>EWF_WATCHING\<close> is set.
\<close>

definition table_view :: "(int \<times> EpollWatch) list \<Rightarrow> (int \<times> int \<times> epoll_event \<times> bool) list" where
  "table_view table =
     map (\<lambda>(k, x). (k, descriptor x, event x, flags x AND EWF_WATCHING \<noteq> 0)) table"

text \<open>Every entry of the table, with its key, has a property.\<close>

definition table_all :: "(int \<Rightarrow> EpollWatch \<Rightarrow> bool) \<Rightarrow> World \<Rightarrow> bool" where
  "table_all P w = (\<forall>(k, x) \<in> set (watching (epoll w)). P k x)"

text \<open>
  The bookkeeping of the notify task and of closing: the scheduler holds one task
  exactly while \<open>EF_SCHEDULED\<close> is set; \<open>_epoll_close\<close> has run at most once, and
  once it has run no task is scheduled, no descriptor calls back and a running
  continuation belongs to a closed epoll; a closed epoll has been finalized exactly if
  no task is scheduled; no task is scheduled while the continuation runs; and only
  registered descriptors call back.
\<close>

definition lifecycle_inv :: "World \<Rightarrow> bool" where
  "lifecycle_inv w =
    (tasks w = (if epoll_flags (epoll w) AND EF_SCHEDULED \<noteq> 0 then 1 else 0)
     \<and> host_closes w \<le> 1
     \<and> (host_closes w = 1 \<longrightarrow>
           epoll_flags (epoll w) AND EF_SCHEDULED = 0 \<and> epoll_listeners w = {}
           \<and> (epoll_flags (epoll w) AND EF_NOTIFYING \<noteq> 0 \<longrightarrow> epoll_flags (epoll w) AND EF_CLOSED \<noteq> 0))
     \<and> (epoll_flags (epoll w) AND EF_CLOSED \<noteq> 0 \<longrightarrow>
           (host_closes w = 1) = (epoll_flags (epoll w) AND EF_SCHEDULED = 0))
     \<and> (epoll_flags (epoll w) AND EF_NOTIFYING \<noteq> 0 \<longrightarrow> epoll_flags (epoll w) AND EF_SCHEDULED = 0)
     \<and> epoll_listeners w \<subseteq> fst ` set (watching (epoll w)))"

text \<open>The actions the application and the descriptors take while \<open>process_continue\<close> runs.\<close>

fun in_continuation :: "action \<Rightarrow> bool" where
  "in_continuation TaskRun = False"
| "in_continuation ContinueReturn = False"
| "in_continuation _ = True"

text \<open>
  An action re-arms the watch of handle \<open>h\<close> when it is a MOD of a registered \<open>h\<close> or
  an ADD that creates a new watch for \<open>h\<close>.
\<close>

fun rearms :: "int \<Rightarrow> World \<Rightarrow> action \<Rightarrow> bool" where
  "rearms h w (Control operation d ev) =
     (d = h \<and> ((operation = EPOLL_CTL_MOD \<and> g_hash_table_lookup (watching (epoll w)) h \<noteq> None)
              \<or> (operation = EPOLL_CTL_ADD \<and> g_hash_table_lookup (watching (epoll w)) h = None)))"
| "rearms h w _ = False"

text \<open>No action of the run, taken in the state it meets, re-arms the watch of \<open>h\<close>.\<close>

fun undisturbed :: "int \<Rightarrow> World \<Rightarrow> (Env \<times> action) list \<Rightarrow> bool" where
  "undisturbed h w [] = True"
| "undisturbed h w ((env, a) # rest) =
     (\<not> rearms h w a
      \<and> (case step env w a of None \<Rightarrow> True | Some w' \<Rightarrow> undisturbed h w' rest))"

text \<open>The readable (writable) bit of descriptor \<open>h\<close> is \<open>b\<close> after every status change of the run.\<close>

fun keeps_readable :: "int \<Rightarrow> bool \<Rightarrow> (Env \<times> action) list \<Rightarrow> bool" where
  "keeps_readable h b [] = True"
| "keeps_readable h b ((env, StatusChanged d s) # rest) =
     ((d = h \<longrightarrow> DS_READABLE s = b) \<and> keeps_readable h b rest)"
| "keeps_readable h b (_ # rest) = keeps_readable h b rest"

fun keeps_writable :: "int \<Rightarrow> bool \<Rightarrow> (Env \<times> action) list \<Rightarrow> bool" where
  "keeps_writable h b [] = True"
| "keeps_writable h b ((env, StatusChanged d s) # rest) =
     ((d = h \<longrightarrow> DS_WRITABLE s = b) \<and> keeps_writable h b rest)"
| "keeps_writable h b (_ # rest) = keeps_writable h b rest"

section \<open>Inputs of the examples\<close>

text \<open>
  A descriptor status that is active and readable, one that is active only, an
  environment in which the process wants notifications, the scheduler accepts tasks and
  the OS epoll has no events, and a fresh epoll with handle 3 and OS descriptor 4.
\<close>

definition ex_readable :: DescriptorStatus where
  "ex_readable = \<lparr>DS_ACTIVE = True, DS_READABLE = True, DS_WRITABLE = False, DS_CLOSED = False\<rparr>"

definition ex_idle :: DescriptorStatus where
  "ex_idle = \<lparr>DS_ACTIVE = True, DS_READABLE = False, DS_WRITABLE = False, DS_CLOSED = False\<rparr>"

definition ex_env :: Env where
  "ex_env = \<lparr>epoll_ctl_readiness = 0, epoll_wait_readiness = 0,
             epoll_wait_os = (\<lambda>space. (0, \<lambda>j. \<lparr>events = 0, data = 0\<rparr>)),
             process_wantsNotify = True, worker_scheduleTask = True, process_isRunning = True\<rparr>"

definition ex_world :: World where
  "ex_world = world_new 3 4 (\<lambda>d. ex_readable)"

definition ex_event :: "32 word \<Rightarrow> epoll_event" where
  "ex_event subscribed = \<lparr>events = subscribed, data = 7\<rparr>"

text \<open>The fresh epoll after an ADD of descriptor 7 with the given subscription mask.\<close>

definition ex_world_watching :: "32 word \<Rightarrow> World" where
  "ex_world_watching subscribed =
     the (run ex_world [(ex_env, Control EPOLL_CTL_ADD 7 (Some (ex_event subscribed)))])"

text \<open>
  The fresh epoll after an ADD of descriptor 7, edge-triggered for reading, and the run
  of the notify task up to \<open>process_continue\<close>.
\<close>

definition ex_world_notifying :: World where
  "ex_world_notifying =
     the (run ex_world [(ex_env, Control EPOLL_CTL_ADD 7 (Some (ex_event (EPOLLIN OR EPOLLET)))),
                        (ex_env, TaskRun)])"

section \<open>Bits of the flag words\<close>

lemma test_push_bit: "n < 32 \<Longrightarrow> ((w::32 word) AND push_bit n 1 = 0) = (\<not> bit w n)"
  by (simp add: and_exp_eq_0_iff_not_bit)

lemma bit_push_bit_1: "n < 32 \<Longrightarrow> bit (push_bit n 1 :: 32 word) m = (m = n)"
  by (auto simp add: bit_exp_iff)

lemma eq_push_bit:
  "n < 32 \<Longrightarrow> ((a::32 word) AND push_bit n 1 = b AND push_bit n 1) = (bit a n = bit b n)"
proof
  assume n: "n < 32" and e: "a AND push_bit n 1 = b AND push_bit n 1"
  then have "bit (a AND push_bit n 1) n = bit (b AND push_bit n 1) n" by simp
  with n show "bit a n = bit b n" by (simp only: bit_and_iff bit_push_bit_1) simp
next
  assume n: "n < 32" and e: "bit a n = bit b n"
  show "a AND push_bit n 1 = b AND push_bit n 1"
  proof (rule bit_word_eqI)
    fix m assume "m < LENGTH(32)"
    show "bit (a AND push_bit n 1) m = bit (b AND push_bit n 1) m"
      using n e by (simp only: bit_and_iff bit_push_bit_1) auto
  qed
qed

lemma EWF_test:
  "(w AND EWF_ACTIVE = 0) = (\<not> bit w 0)"
  "(w AND EWF_READABLE = 0) = (\<not> bit w (Suc 0))"
  "(w AND EWF_WAITINGREAD = 0) = (\<not> bit w 2)"
  "(w AND EWF_READCHANGED = 0) = (\<not> bit w 3)"
  "(w AND EWF_WRITEABLE = 0) = (\<not> bit w 4)"
  "(w AND EWF_WAITINGWRITE = 0) = (\<not> bit w 5)"
  "(w AND EWF_WRITECHANGED = 0) = (\<not> bit w 6)"
  "(w AND EWF_CLOSED = 0) = (\<not> bit w 7)"
  "(w AND EWF_WATCHING = 0) = (\<not> bit w 8)"
  "(w AND EWF_EDGETRIGGER = 0) = (\<not> bit w 9)"
  "(w AND EWF_EDGETRIGGER_REPORTED = 0) = (\<not> bit w 10)"
  "(w AND EWF_ONESHOT = 0) = (\<not> bit w 11)"
  "(w AND EWF_ONESHOT_REPORTED = 0) = (\<not> bit w 12)"
  using test_push_bit [of 0 w] test_push_bit [of 1 w] test_push_bit [of 2 w]
    test_push_bit [of 3 w] test_push_bit [of 4 w] test_push_bit [of 5 w]
    test_push_bit [of 6 w] test_push_bit [of 7 w] test_push_bit [of 8 w]
    test_push_bit [of 9 w] test_push_bit [of 10 w] test_push_bit [of 11 w]
    test_push_bit [of 12 w]
  unfolding EWF_ACTIVE_def EWF_READABLE_def EWF_WAITINGREAD_def EWF_READCHANGED_def
    EWF_WRITEABLE_def EWF_WAITINGWRITE_def EWF_WRITECHANGED_def EWF_CLOSED_def
    EWF_WATCHING_def EWF_EDGETRIGGER_def EWF_EDGETRIGGER_REPORTED_def EWF_ONESHOT_def
    EWF_ONESHOT_REPORTED_def
  by simp_all

lemma EWF_bit:
  "bit EWF_NONE m = False"
  "bit EWF_ACTIVE m = (m = 0)"
  "bit EWF_READABLE m = (m = Suc 0)"
  "bit EWF_WAITINGREAD m = (m = 2)"
  "bit EWF_READCHANGED m = (m = 3)"
  "bit EWF_WRITEABLE m = (m = 4)"
  "bit EWF_WAITINGWRITE m = (m = 5)"
  "bit EWF_WRITECHANGED m = (m = 6)"
  "bit EWF_CLOSED m = (m = 7)"
  "bit EWF_WATCHING m = (m = 8)"
  "bit EWF_EDGETRIGGER m = (m = 9)"
  "bit EWF_EDGETRIGGER_REPORTED m = (m = 10)"
  "bit EWF_ONESHOT m = (m = 11)"
  "bit EWF_ONESHOT_REPORTED m = (m = 12)"
  using bit_push_bit_1 [of 0 m] bit_push_bit_1 [of 1 m] bit_push_bit_1 [of 2 m]
    bit_push_bit_1 [of 3 m] bit_push_bit_1 [of 4 m] bit_push_bit_1 [of 5 m]
    bit_push_bit_1 [of 6 m] bit_push_bit_1 [of 7 m] bit_push_bit_1 [of 8 m]
    bit_push_bit_1 [of 9 m] bit_push_bit_1 [of 10 m] bit_push_bit_1 [of 11 m]
    bit_push_bit_1 [of 12 m]
  unfolding EWF_NONE_def EWF_ACTIVE_def EWF_READABLE_def EWF_WAITINGREAD_def EWF_READCHANGED_def
    EWF_WRITEABLE_def EWF_WAITINGWRITE_def EWF_WRITECHANGED_def EWF_CLOSED_def
    EWF_WATCHING_def EWF_EDGETRIGGER_def EWF_EDGETRIGGER_REPORTED_def EWF_ONESHOT_def
    EWF_ONESHOT_REPORTED_def
  by simp_all

lemma EWF_eq:
  "((a AND EWF_READABLE) = (b AND EWF_READABLE)) = (bit a (Suc 0) = bit b (Suc 0))"
  "((a AND EWF_WRITEABLE) = (b AND EWF_WRITEABLE)) = (bit a 4 = bit b 4)"
  using eq_push_bit [of 1 a b] eq_push_bit [of 4 a b]
  unfolding EWF_READABLE_def EWF_WRITEABLE_def
  by simp_all

lemma EF_test:
  "(w AND EF_SCHEDULED = 0) = (\<not> bit w 0)"
  "(w AND EF_NOTIFYING = 0) = (\<not> bit w (Suc 0))"
  "(w AND EF_CLOSED = 0) = (\<not> bit w 2)"
  using test_push_bit [of 0 w] test_push_bit [of 1 w] test_push_bit [of 2 w]
  unfolding EF_SCHEDULED_def EF_NOTIFYING_def EF_CLOSED_def
  by simp_all

lemma EF_bit:
  "bit EF_SCHEDULED m = (m = 0)"
  "bit EF_NOTIFYING m = (m = Suc 0)"
  "bit EF_CLOSED m = (m = 2)"
  using bit_push_bit_1 [of 0 m] bit_push_bit_1 [of 1 m] bit_push_bit_1 [of 2 m]
  unfolding EF_SCHEDULED_def EF_NOTIFYING_def EF_CLOSED_def
  by simp_all

lemma EPOLL_test:
  "(w AND EPOLLIN = 0) = (\<not> bit w 0)"
  "(w AND EPOLLOUT = 0) = (\<not> bit w 2)"
  "(w AND EPOLLONESHOT = 0) = (\<not> bit w 30)"
  "(w AND EPOLLET = 0) = (\<not> bit w 31)"
  using test_push_bit [of 0 w] test_push_bit [of 2 w] test_push_bit [of 30 w] test_push_bit [of 31 w]
  by (simp_all add: EPOLLIN_def EPOLLOUT_def EPOLLONESHOT_def EPOLLET_def)

lemma EPOLL_bit:
  "bit EPOLLIN m = (m = 0)"
  "bit EPOLLOUT m = (m = 2)"
  "bit EPOLLONESHOT m = (m = 30)"
  "bit EPOLLET m = (m = 31)"
  using bit_push_bit_1 [of 0 m] bit_push_bit_1 [of 2 m] bit_push_bit_1 [of 30 m] bit_push_bit_1 [of 31 m]
  by (simp_all add: EPOLLIN_def EPOLLOUT_def EPOLLONESHOT_def EPOLLET_def)

lemma bit_zero_word: "bit (0::32 word) m = False"
  by simp

lemmas flag_bits = EWF_test EWF_bit EWF_eq EF_test EF_bit EPOLL_test EPOLL_bit
  bit_or_iff bit_and_iff bit_not_iff

lemma flag_nonzero:
  "EF_SCHEDULED \<noteq> 0" "EF_NOTIFYING \<noteq> 0" "EF_CLOSED \<noteq> 0"
  "EWF_READCHANGED \<noteq> 0" "EWF_WRITECHANGED \<noteq> 0" "EWF_WATCHING \<noteq> 0"
  "EWF_EDGETRIGGER_REPORTED \<noteq> 0" "EWF_ONESHOT_REPORTED \<noteq> 0"
  "EPOLLIN \<noteq> 0" "EPOLLOUT \<noteq> 0" "EPOLLET \<noteq> 0" "EPOLLONESHOT \<noteq> 0"
  by (simp_all add: EF_SCHEDULED_def EF_NOTIFYING_def EF_CLOSED_def EWF_READCHANGED_def
      EWF_WRITECHANGED_def EWF_WATCHING_def EWF_EDGETRIGGER_REPORTED_def EWF_ONESHOT_REPORTED_def
      EPOLLIN_def EPOLLOUT_def EPOLLET_def EPOLLONESHOT_def)

section \<open>The refresh of a watch\<close>

lemma updateStatus_bits:
  "bit (flags (epollwatch_updateStatus g w)) 0 = DS_ACTIVE (g (descriptor w))"
  "bit (flags (epollwatch_updateStatus g w)) (Suc 0) = DS_READABLE (g (descriptor w))"
  "bit (flags (epollwatch_updateStatus g w)) 2 = bit (events (event w)) 0"
  "bit (flags (epollwatch_updateStatus g w)) 3 =
     (bit (flags w) 3 \<or> DS_READABLE (g (descriptor w)) \<noteq> bit (flags w) (Suc 0))"
  "bit (flags (epollwatch_updateStatus g w)) 4 = DS_WRITABLE (g (descriptor w))"
  "bit (flags (epollwatch_updateStatus g w)) 5 = bit (events (event w)) 2"
  "bit (flags (epollwatch_updateStatus g w)) 6 =
     (bit (flags w) 6 \<or> DS_WRITABLE (g (descriptor w)) \<noteq> bit (flags w) 4)"
  "bit (flags (epollwatch_updateStatus g w)) 7 = DS_CLOSED (g (descriptor w))"
  "bit (flags (epollwatch_updateStatus g w)) 8 = bit (flags w) 8"
  "bit (flags (epollwatch_updateStatus g w)) 9 = bit (events (event w)) 31"
  "bit (flags (epollwatch_updateStatus g w)) 10 = bit (flags w) 10"
  "bit (flags (epollwatch_updateStatus g w)) 11 = bit (events (event w)) 30"
  "bit (flags (epollwatch_updateStatus g w)) 12 = bit (flags w) 12"
  by (auto simp add: epollwatch_updateStatus_def Let_def flag_bits)

lemma updateStatus_fields:
  "descriptor (epollwatch_updateStatus g w) = descriptor w"
  "event (epollwatch_updateStatus g w) = event w"
  "referenceCount (epollwatch_updateStatus g w) = referenceCount w"
  by (simp_all add: epollwatch_updateStatus_def Let_def)

text \<open>
  C4. The refresh takes \<open>active\<close>, \<open>readable\<close>, \<open>writable\<close>, \<open>closed\<close> from the fresh
  descriptor status and \<open>waiting-read\<close>, \<open>waiting-write\<close>, \<open>edge-triggered\<close>,
  \<open>one-shot\<close> from the stored subscription mask; it keeps \<open>watching\<close>,
  \<open>edge-reported\<close> and \<open>one-shot-reported\<close>; \<open>read-changed\<close> (\<open>write-changed\<close>) is
  set afterwards exactly if it was set before or the new \<open>readable\<close> (\<open>writable\<close>) bit
  differs from the one before the refresh. The descriptor and the subscription of the
  watch stay as they are.
\<close>

theorem updateStatus_refresh:
  fixes g watch
  defines "watch' \<equiv> epollwatch_updateStatus g watch"
    and "status \<equiv> g (descriptor watch)"
  shows
    "(flags watch' AND EWF_ACTIVE \<noteq> 0) = DS_ACTIVE status
   \<and> (flags watch' AND EWF_READABLE \<noteq> 0) = DS_READABLE status
   \<and> (flags watch' AND EWF_WRITEABLE \<noteq> 0) = DS_WRITABLE status
   \<and> (flags watch' AND EWF_CLOSED \<noteq> 0) = DS_CLOSED status
   \<and> (flags watch' AND EWF_WAITINGREAD \<noteq> 0) = (events (event watch) AND EPOLLIN \<noteq> 0)
   \<and> (flags watch' AND EWF_WAITINGWRITE \<noteq> 0) = (events (event watch) AND EPOLLOUT \<noteq> 0)
   \<and> (flags watch' AND EWF_EDGETRIGGER \<noteq> 0) = (events (event watch) AND EPOLLET \<noteq> 0)
   \<and> (flags watch' AND EWF_ONESHOT \<noteq> 0) = (events (event watch) AND EPOLLONESHOT \<noteq> 0)
   \<and> (flags watch' AND EWF_WATCHING \<noteq> 0) = (flags watch AND EWF_WATCHING \<noteq> 0)
   \<and> (flags watch' AND EWF_EDGETRIGGER_REPORTED \<noteq> 0) = (flags watch AND EWF_EDGETRIGGER_REPORTED \<noteq> 0)
   \<and> (flags watch' AND EWF_ONESHOT_REPORTED \<noteq> 0) = (flags watch AND EWF_ONESHOT_REPORTED \<noteq> 0)
   \<and> (flags watch' AND EWF_READCHANGED \<noteq> 0) =
       (flags watch AND EWF_READCHANGED \<noteq> 0
        \<or> (flags watch' AND EWF_READABLE \<noteq> 0) \<noteq> (flags watch AND EWF_READABLE \<noteq> 0))
   \<and> (flags watch' AND EWF_WRITECHANGED \<noteq> 0) =
       (flags watch AND EWF_WRITECHANGED \<noteq> 0
        \<or> (flags watch' AND EWF_WRITEABLE \<noteq> 0) \<noteq> (flags watch AND EWF_WRITEABLE \<noteq> 0))
   \<and> descriptor watch' = descriptor watch \<and> event watch' = event watch"
  unfolding watch'_def status_def
  by (simp add: EWF_test EPOLL_test updateStatus_bits updateStatus_fields)

theorem updateStatus_refresh_witness:
  "flags (epollwatch_updateStatus
      (\<lambda>_. \<lparr>DS_ACTIVE = True, DS_READABLE = True, DS_WRITABLE = False, DS_CLOSED = False\<rparr>)
      \<lparr>descriptor = 5, event = \<lparr>events = EPOLLIN OR EPOLLET, data = 7\<rparr>,
        flags = EWF_WATCHING, referenceCount = 1\<rparr>) AND EWF_READCHANGED \<noteq> 0"
  using updateStatus_refresh [of
      "\<lambda>_. \<lparr>DS_ACTIVE = True, DS_READABLE = True, DS_WRITABLE = False, DS_CLOSED = False\<rparr>"
      "\<lparr>descriptor = 5, event = \<lparr>events = EPOLLIN OR EPOLLET, data = 7\<rparr>,
        flags = EWF_WATCHING, referenceCount = 1\<rparr>"]
  by (simp add: EWF_test EWF_bit)

section \<open>The readiness of a watch\<close>

text \<open>
  C1. The readiness evaluator refreshes the watch and answers by the rule of the spec
  on the refreshed flags: \<open>active\<close>, not \<open>closed\<close> and \<open>watching\<close>; a candidate
  (\<open>readable\<close> and \<open>waiting-read\<close>, or \<open>writable\<close> and \<open>waiting-write\<close>); in
  edge-triggered mode a candidate whose change bit is set or \<open>edge-reported\<close> not set;
  and not both \<open>one-shot\<close> and \<open>one-shot-reported\<close>.
\<close>

theorem isReady_refines_spec:
  "epollwatch_isReady g watch =
     (epollwatch_updateStatus g watch, spec_isReady (flags (epollwatch_updateStatus g watch)))"
  by (auto simp add: epollwatch_isReady_def spec_isReady_def spec_candidate_read_def
      spec_candidate_write_def Let_def)

theorem isReady_refines_spec_witness:
  "epollwatch_isReady
      (\<lambda>_. \<lparr>DS_ACTIVE = True, DS_READABLE = True, DS_WRITABLE = False, DS_CLOSED = False\<rparr>)
      \<lparr>descriptor = 5, event = \<lparr>events = EPOLLIN OR EPOLLET, data = 7\<rparr>,
        flags = EWF_WATCHING, referenceCount = 1\<rparr>
   = (epollwatch_updateStatus
      (\<lambda>_. \<lparr>DS_ACTIVE = True, DS_READABLE = True, DS_WRITABLE = False, DS_CLOSED = False\<rparr>)
      \<lparr>descriptor = 5, event = \<lparr>events = EPOLLIN OR EPOLLET, data = 7\<rparr>,
        flags = EWF_WATCHING, referenceCount = 1\<rparr>, True)"
  using isReady_refines_spec [of
      "\<lambda>_. \<lparr>DS_ACTIVE = True, DS_READABLE = True, DS_WRITABLE = False, DS_CLOSED = False\<rparr>"
      "\<lparr>descriptor = 5, event = \<lparr>events = EPOLLIN OR EPOLLET, data = 7\<rparr>,
        flags = EWF_WATCHING, referenceCount = 1\<rparr>"]
  by (simp add: spec_isReady_def spec_candidate_read_def spec_candidate_write_def
      EWF_test EWF_bit EPOLL_bit updateStatus_bits bit_or_iff)

section \<open>The loops over the table and the check\<close>

lemma isReady_fst: "fst (epollwatch_isReady g x) = epollwatch_updateStatus g x"
  by (simp add: epollwatch_isReady_def Let_def)

lemma check_loop_keys: "map fst (fst (epoll_check_loop g t)) = map fst t"
  by (induction t) (auto simp add: Let_def split_beta isReady_fst)

lemma tryNotify_loop_keys: "map fst (fst (epoll_tryNotify_loop g b t)) = map fst t"
  by (induction t arbitrary: b) (auto simp add: Let_def split_beta isReady_fst)

lemma getEvents_loop_keys: "map fst (fst (epoll_getEvents_loop g n i t)) = map fst t"
  by (induction t arbitrary: i) (auto simp add: Let_def split_beta isReady_fst)

lemma check_loop_all:
  assumes "\<And>k x. P k x \<Longrightarrow> P k (epollwatch_updateStatus g x)"
  shows "\<forall>(k, x) \<in> set t. P k x \<Longrightarrow> \<forall>(k, x) \<in> set (fst (epoll_check_loop g t)). P k x"
proof (induction t)
  case Nil
  then show ?case by simp
next
  case (Cons a t)
  obtain k x where a: "a = (k, x)" by (cases a)
  have x: "P k (epollwatch_updateStatus g x)"
    using Cons.prems a assms by simp
  show ?case
    using Cons a x by (auto simp add: Let_def split_beta isReady_fst)
qed

lemma tryNotify_loop_all:
  assumes "\<And>k x. P k x \<Longrightarrow> P k (epollwatch_updateStatus g x)"
  shows "\<forall>(k, x) \<in> set t. P k x \<Longrightarrow> \<forall>(k, x) \<in> set (fst (epoll_tryNotify_loop g b t)). P k x"
proof (induction t arbitrary: b)
  case Nil
  then show ?case by simp
next
  case (Cons a t)
  obtain k x where a: "a = (k, x)" by (cases a)
  have x: "P k (epollwatch_updateStatus g x)"
    using Cons.prems a assms by simp
  have t: "\<forall>(k, x) \<in> set t. P k x" using Cons.prems by simp
  show ?case
    using Cons.IH [OF t] a x by (auto simp add: Let_def split_beta isReady_fst)
qed

lemma getEvents_loop_all:
  assumes "\<And>k x. P k x \<Longrightarrow> P k (epollwatch_updateStatus g x)"
    and "\<And>k x. P k x \<Longrightarrow> P k (fst (epoll_getEvents_report x))"
  shows "\<forall>(k, x) \<in> set t. P k x \<Longrightarrow> \<forall>(k, x) \<in> set (fst (epoll_getEvents_loop g n i t)). P k x"
proof (induction t arbitrary: i)
  case Nil
  then show ?case by simp
next
  case (Cons a t)
  obtain k x where a: "a = (k, x)" by (cases a)
  have x: "P k (epollwatch_updateStatus g x)"
    using Cons.prems a assms(1) by simp
  then have y: "P k (fst (epoll_getEvents_report (epollwatch_updateStatus g x)))"
    by (rule assms(2))
  have t: "\<forall>(k, x) \<in> set t. P k x" using Cons.prems by simp
  show ?case
    using Cons.IH [OF t] Cons.prems a x y by (auto simp add: Let_def split_beta isReady_fst)
qed


lemma report_flags:
  "bit (flags (fst (epoll_getEvents_report x))) 3 = False"
  "bit (flags (fst (epoll_getEvents_report x))) 6 = False"
  "bit (flags (fst (epoll_getEvents_report x))) 10 = (bit (flags x) 10 \<or> bit (flags x) 9)"
  "bit (flags (fst (epoll_getEvents_report x))) 12 = (bit (flags x) 12 \<or> bit (flags x) 11)"
  "bit (flags (fst (epoll_getEvents_report x))) 0 = bit (flags x) 0"
  "bit (flags (fst (epoll_getEvents_report x))) (Suc 0) = bit (flags x) (Suc 0)"
  "bit (flags (fst (epoll_getEvents_report x))) 2 = bit (flags x) 2"
  "bit (flags (fst (epoll_getEvents_report x))) 4 = bit (flags x) 4"
  "bit (flags (fst (epoll_getEvents_report x))) 5 = bit (flags x) 5"
  "bit (flags (fst (epoll_getEvents_report x))) 7 = bit (flags x) 7"
  "bit (flags (fst (epoll_getEvents_report x))) 8 = bit (flags x) 8"
  "bit (flags (fst (epoll_getEvents_report x))) 9 = bit (flags x) 9"
  "bit (flags (fst (epoll_getEvents_report x))) 11 = bit (flags x) 11"
  by (auto simp add: epoll_getEvents_report_def Let_def flag_bits)

lemma report_fields:
  "descriptor (fst (epoll_getEvents_report x)) = descriptor x"
  "event (fst (epoll_getEvents_report x)) = event x"
  "referenceCount (fst (epoll_getEvents_report x)) = referenceCount x"
  by (simp_all add: epoll_getEvents_report_def Let_def)

lemma report_event:
  "bit (events (snd (epoll_getEvents_report x))) 0 = (bit (flags x) (Suc 0) \<and> bit (flags x) 2)"
  "bit (events (snd (epoll_getEvents_report x))) 2 = (bit (flags x) 4 \<and> bit (flags x) 5)"
  "bit (events (snd (epoll_getEvents_report x))) 31 = bit (flags x) 9"
  "data (snd (epoll_getEvents_report x)) = data (event x)"
  by (auto simp add: epoll_getEvents_report_def Let_def flag_bits)

lemma isReadyOS_fields:
  "epoll (fst (epoll_isReadyOS env w)) = epoll w"
  "descriptor_status (fst (epoll_isReadyOS env w)) = descriptor_status w"
  "epoll_listeners (fst (epoll_isReadyOS env w)) = epoll_listeners w"
  "tasks (fst (epoll_isReadyOS env w)) = tasks w"
  "host_closes (fst (epoll_isReadyOS env w)) = host_closes w"
  by (simp_all add: epoll_isReadyOS_def Let_def)

lemma check_fields:
  "descriptor_status (epoll_check env w) = descriptor_status w"
  "epoll_listeners (epoll_check env w) = epoll_listeners w"
  "host_closes (epoll_check env w) = host_closes w"
  "osEpollDescriptor (epoll (epoll_check env w)) = osEpollDescriptor (epoll w)"
  "super_handle (epoll (epoll_check env w)) = super_handle (epoll w)"
  by (simp_all add: epoll_check_def Let_def split_beta isReadyOS_fields)

lemma check_table:
  "watching (epoll (epoll_check env w)) =
     (if epoll_flags (epoll w) AND EF_CLOSED \<noteq> 0 \<or> epoll_flags (epoll w) AND EF_NOTIFYING \<noteq> 0
      then watching (epoll w)
      else fst (epoll_check_loop (descriptor_status w) (watching (epoll w))))"
  by (simp add: epoll_check_def Let_def split_beta isReadyOS_fields)

lemma check_flags:
  "bit (epoll_flags (epoll (epoll_check env w))) (Suc 0) = bit (epoll_flags (epoll w)) (Suc 0)"
  "bit (epoll_flags (epoll (epoll_check env w))) 2 = bit (epoll_flags (epoll w)) 2"
  by (simp_all add: epoll_check_def Let_def split_beta isReadyOS_fields flag_bits)

lemma check_tasks:
  "(tasks (epoll_check env w) = tasks w
      \<and> bit (epoll_flags (epoll (epoll_check env w))) 0 = bit (epoll_flags (epoll w)) 0)
   \<or> (tasks (epoll_check env w) = tasks w + 1
      \<and> bit (epoll_flags (epoll (epoll_check env w))) 0 \<and> \<not> bit (epoll_flags (epoll w)) 0
      \<and> \<not> bit (epoll_flags (epoll w)) (Suc 0) \<and> \<not> bit (epoll_flags (epoll w)) 2)"
  by (simp add: epoll_check_def Let_def split_beta isReadyOS_fields flag_bits)

lemma check_table_all:
  assumes "\<And>k x. P k x \<Longrightarrow> P k (epollwatch_updateStatus (descriptor_status w) x)"
    and "table_all P w"
  shows "table_all P (epoll_check env w)"
  using check_loop_all [of P "descriptor_status w" "watching (epoll w)", OF assms(1)] assms(2)
  by (simp add: table_all_def check_table)

lemma check_keys: "map fst (watching (epoll (epoll_check env w))) = map fst (watching (epoll w))"
  by (simp add: check_table check_loop_keys)

section \<open>Control operations\<close>

lemma lookup_in_table:
  "g_hash_table_lookup t d = Some x \<Longrightarrow> (d, x) \<in> set t"
  by (simp add: g_hash_table_lookup_def map_of_SomeD)

lemma lookup_None_keys:
  "(g_hash_table_lookup t d = None) = (d \<notin> fst ` set t)"
  by (simp add: g_hash_table_lookup_def map_of_eq_None_iff)

lemmas eval_defs = ex_readable_def ex_idle_def ex_env_def ex_world_def ex_event_def
  ex_world_watching_def ex_world_notifying_def
  world_new_def epoll_new_def epoll_control_def epoll_check_def epoll_isReadyOS_def
  epoll_getEvents_def epoll_tryNotify_enter_def epoll_tryNotify_return_def epoll_tryToClose_def
  epoll_close_def epoll_clearWatchListeners_def epoll_descriptorStatusChanged_def
  epollwatch_isReady_def epoll_getEvents_report_def g_hash_table_lookup_def
  EPOLL_CTL_ADD_def EPOLL_CTL_MOD_def EPOLL_CTL_DEL_def EEXIST_def ENOENT_def
  Let_def split_beta flag_bits flag_nonzero updateStatus_bits updateStatus_fields

lemma ex_world_inv: "watch_table_inv ex_world"
  by (simp add: watch_table_inv_def ex_world_def world_new_def epoll_new_def)

text \<open>
  C5. In a state of the table that the code maintains, and with a subscription
  supplied whenever the operation is ADD or MOD, \<open>epoll_control\<close> returns: it
  returns \<open>EEXIST\<close> exactly if the operation is ADD and the handle is registered,
  \<open>ENOENT\<close> exactly if the operation is MOD or DEL and the handle is not registered,
  and 0 in every other case; an unrecognized operation returns 0 and changes nothing.
\<close>

theorem control_result:
  assumes "watch_table_inv w"
    and "operation = EPOLL_CTL_ADD \<or> operation = EPOLL_CTL_MOD \<longrightarrow> ev \<noteq> None"
  shows "\<exists>w' r. epoll_control env w operation d ev = Some (w', r)
     \<and> (r = EEXIST) = (operation = EPOLL_CTL_ADD
                        \<and> g_hash_table_lookup (watching (epoll w)) d \<noteq> None)
     \<and> (r = ENOENT) = ((operation = EPOLL_CTL_MOD \<or> operation = EPOLL_CTL_DEL)
                        \<and> g_hash_table_lookup (watching (epoll w)) d = None)
     \<and> (r \<noteq> EEXIST \<and> r \<noteq> ENOENT \<longrightarrow> r = 0)
     \<and> (operation \<noteq> EPOLL_CTL_ADD \<and> operation \<noteq> EPOLL_CTL_MOD \<and> operation \<noteq> EPOLL_CTL_DEL
          \<longrightarrow> w' = w \<and> r = 0)"
proof -
  have watching: "flags x AND EWF_WATCHING \<noteq> 0"
    if "g_hash_table_lookup (watching (epoll w)) d = Some x" for x
    using lookup_in_table [OF that] assms(1) by (auto simp add: watch_table_inv_def)
  show ?thesis
    using assms(2) watching
    by (auto simp add: epoll_control_def Let_def EEXIST_def ENOENT_def
        EPOLL_CTL_ADD_def EPOLL_CTL_MOD_def EPOLL_CTL_DEL_def split: option.splits)
qed


theorem control_result_witness:
  "\<exists>w'. epoll_control ex_env ex_world EPOLL_CTL_ADD 7 (Some (ex_event EPOLLIN)) = Some (w', 0)"
proof -
  have l: "g_hash_table_lookup (watching (epoll ex_world)) 7 = None"
    by (simp add: eval_defs)
  have d: "EPOLL_CTL_ADD \<noteq> EPOLL_CTL_MOD" "EPOLL_CTL_ADD \<noteq> EPOLL_CTL_DEL"
    by (simp_all add: EPOLL_CTL_ADD_def EPOLL_CTL_MOD_def EPOLL_CTL_DEL_def)
  from control_result [OF ex_world_inv, of EPOLL_CTL_ADD "Some (ex_event EPOLLIN)" ex_env 7]
  obtain w' r where
    "epoll_control ex_env ex_world EPOLL_CTL_ADD 7 (Some (ex_event EPOLLIN)) = Some (w', r)"
    "(r = EEXIST) = (EPOLL_CTL_ADD = EPOLL_CTL_ADD
        \<and> g_hash_table_lookup (watching (epoll ex_world)) 7 \<noteq> None)"
    "(r = ENOENT) = ((EPOLL_CTL_ADD = EPOLL_CTL_MOD \<or> EPOLL_CTL_ADD = EPOLL_CTL_DEL)
        \<and> g_hash_table_lookup (watching (epoll ex_world)) 7 = None)"
    "r \<noteq> EEXIST \<and> r \<noteq> ENOENT \<longrightarrow> r = 0"
    by auto
  with l d show ?thesis by auto
qed


text \<open>
  C10. A call of \<open>epoll_control\<close> that returns \<open>EEXIST\<close> or \<open>ENOENT\<close> leaves the
  whole state as it was: the table with every watch, the epoll's flags and status, the
  listeners, the scheduled tasks and the system calls made.
\<close>

theorem control_error_is_atomic:
  assumes "epoll_control env w operation d ev = Some (w', r)"
    and "r = EEXIST \<or> r = ENOENT"
  shows "w' = w"
  using assms
  by (auto simp add: epoll_control_def Let_def EEXIST_def ENOENT_def
      split: option.splits if_splits)

theorem control_error_is_atomic_witness:
  "epoll_control ex_env ex_world EPOLL_CTL_MOD 7 None = Some (ex_world, ENOENT)"
proof -
  have "\<exists>w'. epoll_control ex_env ex_world EPOLL_CTL_MOD 7 None = Some (w', ENOENT)"
    by (simp add: eval_defs)
  then obtain w' where e: "epoll_control ex_env ex_world EPOLL_CTL_MOD 7 None = Some (w', ENOENT)"
    by blast
  from control_error_is_atomic [OF e] have "w' = ex_world" by simp
  with e show ?thesis by simp
qed


section \<open>Collecting events\<close>

lemma getEvents_loop_length:
  "i \<le> n \<Longrightarrow> i + int (length (snd (epoll_getEvents_loop g n i t))) \<le> n"
proof (induction t arbitrary: i)
  case Nil
  then show ?case by simp
next
  case (Cons a t)
  obtain k x where a: "a = (k, x)" by (cases a)
  show ?case
  proof (cases "i < n")
    case True
    then have "i + 1 \<le> n" by simp
    from Cons.IH [OF this] Cons.IH [OF Cons.prems] True a
    show ?thesis by (simp add: Let_def split_beta)
  next
    case False
    with Cons.prems a show ?thesis by simp
  qed
qed

lemma check_os_waits: "os_waits (os_calls (epoll_check env w)) = os_waits (os_calls w)"
  by (simp add: epoll_check_def epoll_isReadyOS_def os_waits_def Let_def split_beta)

text \<open>
  C6. For a capacity that is not negative, a call of \<open>epoll_getEvents\<close> that returns
  has written as many events as it counts, and at most the capacity. When the sweep
  over the watches has filled the buffer, and in particular when the capacity is 0,
  \<open>epoll_wait\<close> is not called on the OS epoll descriptor and only the events of the
  watches are written; with capacity 0 no event is returned and no OS wait is made.
  The call returns whenever the buffer is filled by the sweep, and otherwise whenever
  the OS \<open>epoll_wait\<close> returns at most the \<open>space\<close> it is given.
\<close>

theorem getEvents_capacity:
  assumes cap: "0 \<le> eventArrayLength"
  shows "(\<forall>w' reported eventArray nEvents.
          epoll_getEvents env w eventArrayLength = Some (w', reported, eventArray, nEvents) \<longrightarrow>
            nEvents \<le> eventArrayLength
            \<and> int (length eventArray) = nEvents
            \<and> (int (length reported) = eventArrayLength \<longrightarrow>
                  eventArray = map snd reported \<and> os_waits (os_calls w') = os_waits (os_calls w))
            \<and> (eventArrayLength = 0 \<longrightarrow>
                  nEvents = 0 \<and> eventArray = [] \<and> os_waits (os_calls w') = os_waits (os_calls w)))
       \<and> (let space = eventArrayLength - int (length (snd (epoll_getEvents_loop
                          (descriptor_status w) eventArrayLength 0 (watching (epoll w)))))
          in space = 0 \<or> fst (epoll_wait_os env space) \<le> space \<longrightarrow>
             epoll_getEvents env w eventArrayLength \<noteq> None)
       \<and> (eventArrayLength = 0 \<longrightarrow> epoll_getEvents env w eventArrayLength \<noteq> None)"
proof -
  define lp where
    "lp = epoll_getEvents_loop (descriptor_status w) eventArrayLength 0 (watching (epoll w))"
  define reported where "reported = snd lp"
  define w1 where "w1 = w\<lparr>epoll := (epoll w)\<lparr>watching := fst lp\<rparr>\<rparr>"
  define space where "space = eventArrayLength - int (length reported)"
  define w2 where
    "w2 = w1\<lparr>os_calls := os_calls w1 @ [SYS_epoll_wait_osEpollDescriptor space]\<rparr>"
  define copied where
    "copied = map (snd (epoll_wait_os env space)) [0..<nat (fst (epoll_wait_os env space))]"
  have len: "int (length reported) \<le> eventArrayLength"
    using getEvents_loop_length [OF cap, of "descriptor_status w" "watching (epoll w)"]
    by (simp add: reported_def lp_def)
  have unfold: "epoll_getEvents env w eventArrayLength =
    (if space \<noteq> 0 then
       (if space < 0 then None
        else if fst (epoll_wait_os env space) > space then None
        else Some (epoll_check env w2, reported, map snd reported @ copied,
                   int (length reported) + int (length copied)))
     else Some (epoll_check env w1, reported, map snd reported, int (length reported)))"
    unfolding epoll_getEvents_def Let_def split_beta lp_def [symmetric]
    unfolding reported_def [symmetric] w1_def [symmetric]
    unfolding space_def [symmetric] w2_def [symmetric] copied_def [symmetric]
    by simp
  have w1: "os_calls w1 = os_calls w" by (simp add: w1_def)
  have sp: "0 \<le> space" using len by (simp add: space_def)
  have zero: "space = 0" if "eventArrayLength = 0"
    using that len by (simp add: space_def)
  have bounds: "nEvents \<le> eventArrayLength
            \<and> int (length eventArray) = nEvents
            \<and> (int (length rep) = eventArrayLength \<longrightarrow>
                  eventArray = map snd rep \<and> os_waits (os_calls w') = os_waits (os_calls w))
            \<and> (eventArrayLength = 0 \<longrightarrow>
                  nEvents = 0 \<and> eventArray = [] \<and> os_waits (os_calls w') = os_waits (os_calls w))"
    if r: "epoll_getEvents env w eventArrayLength = Some (w', rep, eventArray, nEvents)"
    for w' rep eventArray nEvents
  proof (cases "space = 0")
    case True
    with r have eq: "w' = epoll_check env w1" "rep = reported" "eventArray = map snd reported"
      "nEvents = int (length reported)"
      by (auto simp add: unfold)
    from True have full: "int (length reported) = eventArrayLength" by (simp add: space_def)
    show ?thesis
      unfolding eq using full w1 by (auto simp add: check_os_waits)
  next
    case False
    with sp have pos: "0 < space" by simp
    from r False pos have nos: "fst (epoll_wait_os env space) \<le> space"
      by (simp add: unfold split: if_splits)
    with r False pos have eq: "rep = reported" "eventArray = map snd reported @ copied"
      "nEvents = int (length reported) + int (length copied)"
      by (auto simp add: unfold)
    have ne: "int (length reported) \<noteq> eventArrayLength" "eventArrayLength \<noteq> 0"
      using pos len by (auto simp add: space_def)
    have c: "int (length copied) \<le> space"
      using nos pos by (simp add: copied_def)
    show ?thesis
      unfolding eq using ne c by (simp add: space_def)
  qed
  have returns: "epoll_getEvents env w eventArrayLength \<noteq> None"
    if "space = 0 \<or> fst (epoll_wait_os env space) \<le> space"
    using that sp by (auto simp add: unfold)
  have returns0: "epoll_getEvents env w eventArrayLength \<noteq> None" if "eventArrayLength = 0"
    using zero [OF that] by (simp add: unfold)
  show ?thesis
    using bounds returns returns0
    unfolding Let_def lp_def [symmetric] reported_def [symmetric] space_def [symmetric]
    by blast
qed

theorem getEvents_capacity_witness:
  "(\<exists>w'. epoll_getEvents ex_env (ex_world_watching EPOLLIN) 1
          = Some (w', [(7, \<lparr>events = EPOLLIN, data = 7\<rparr>)], [\<lparr>events = EPOLLIN, data = 7\<rparr>], 1)
        \<and> os_waits (os_calls w') = os_waits (os_calls (ex_world_watching EPOLLIN)))
   \<and> (\<exists>w'. epoll_getEvents ex_env (ex_world_watching EPOLLIN) 0 = Some (w', [], [], 0)
        \<and> os_waits (os_calls w') = os_waits (os_calls (ex_world_watching EPOLLIN)))"
proof -
  have e1: "\<exists>w'. epoll_getEvents ex_env (ex_world_watching EPOLLIN) 1
      = Some (w', [(7, \<lparr>events = EPOLLIN, data = 7\<rparr>)], [\<lparr>events = EPOLLIN, data = 7\<rparr>], 1)"
    by (simp add: eval_defs EPOLLIN_def)
  have e0: "\<exists>w'. epoll_getEvents ex_env (ex_world_watching EPOLLIN) 0 = Some (w', [], [], 0)"
    by (simp add: eval_defs)
  have c1: "(0::int) \<le> 1" and c0: "(0::int) \<le> 0" by simp_all
  from e1 getEvents_capacity [OF c1, of ex_env "ex_world_watching EPOLLIN"]
  have "\<exists>w'. epoll_getEvents ex_env (ex_world_watching EPOLLIN) 1
          = Some (w', [(7, \<lparr>events = EPOLLIN, data = 7\<rparr>)], [\<lparr>events = EPOLLIN, data = 7\<rparr>], 1)
        \<and> os_waits (os_calls w') = os_waits (os_calls (ex_world_watching EPOLLIN))"
    by fastforce
  moreover from e0 getEvents_capacity [OF c0, of ex_env "ex_world_watching EPOLLIN"]
  have "\<exists>w'. epoll_getEvents ex_env (ex_world_watching EPOLLIN) 0 = Some (w', [], [], 0)
        \<and> os_waits (os_calls w') = os_waits (os_calls (ex_world_watching EPOLLIN))"
    by fastforce
  ultimately show ?thesis by simp
qed

text \<open>
  The OS wait that a full buffer skips is the \<open>epoll_wait\<close> on the OS epoll descriptor.
  The final \<open>_epoll_check\<close> of a collect still asks \<open>_epoll_isReadyOS\<close> when no watch
  is ready, also with capacity 0.
\<close>

lemma getEvents_zero_capacity_probes_os:
  "epoll_getEvents ex_env ex_world 0 \<noteq> None
   \<and> os_calls ex_world = []
   \<and> os_calls (fst (the (epoll_getEvents ex_env ex_world 0))) =
       [SYS_epoll_create, SYS_epoll_ctl_add, SYS_epoll_wait_readinessFD, SYS_epoll_ctl_del,
        SYS_close_readinessFD]"
  by (simp add: eval_defs)

lemma view_check_loop: "table_view (fst (epoll_check_loop g t)) = table_view t"
  by (induction t)
    (auto simp add: table_view_def Let_def split_beta isReady_fst updateStatus_fields
      EWF_test updateStatus_bits)

lemma view_getEvents_loop: "table_view (fst (epoll_getEvents_loop g n i t)) = table_view t"
  by (induction t arbitrary: i)
    (auto simp add: table_view_def Let_def split_beta isReady_fst updateStatus_fields
      EWF_test updateStatus_bits report_fields report_flags)

lemma level_ready:
  assumes "events (event x) AND EPOLLET = 0" "events (event x) AND EPOLLONESHOT = 0"
  shows "snd (epollwatch_isReady g x) =
    (DS_ACTIVE (g (descriptor x)) \<and> \<not> DS_CLOSED (g (descriptor x)) \<and> flags x AND EWF_WATCHING \<noteq> 0
     \<and> ((DS_READABLE (g (descriptor x)) \<and> events (event x) AND EPOLLIN \<noteq> 0)
        \<or> (DS_WRITABLE (g (descriptor x)) \<and> events (event x) AND EPOLLOUT \<noteq> 0)))"
  using assms
  by (auto simp add: epollwatch_isReady_def Let_def EWF_test EPOLL_test updateStatus_bits)

lemma report_refreshed_event:
  assumes "descriptor x = descriptor y" "event x = event y"
  shows "snd (epoll_getEvents_report (epollwatch_updateStatus g x)) =
         snd (epoll_getEvents_report (epollwatch_updateStatus g y))"
  using assms
  by (simp add: epoll_getEvents_report_def Let_def EWF_test updateStatus_bits updateStatus_fields)

lemma level_loop_output:
  assumes "\<forall>(k, x) \<in> set t. events (event x) AND EPOLLET = 0 \<and> events (event x) AND EPOLLONESHOT = 0"
    and "table_view t = table_view t'"
  shows "snd (epoll_getEvents_loop g n i t) = snd (epoll_getEvents_loop g n i t')"
  using assms
proof (induction t arbitrary: t' i)
  case Nil
  then show ?case by (simp add: table_view_def)
next
  case (Cons a t)
  obtain k x where a: "a = (k, x)" by (cases a)
  from Cons.prems(2) a obtain y u where t': "t' = (k, y) # u"
    and xy: "descriptor x = descriptor y" "event x = event y"
      "(flags x AND EWF_WATCHING \<noteq> 0) = (flags y AND EWF_WATCHING \<noteq> 0)"
    and v: "table_view t = table_view u"
    by (cases t') (auto simp add: table_view_def)
  have lx: "events (event x) AND EPOLLET = 0" "events (event x) AND EPOLLONESHOT = 0"
    and lt: "\<forall>(k, x) \<in> set t. events (event x) AND EPOLLET = 0 \<and> events (event x) AND EPOLLONESHOT = 0"
    using Cons.prems(1) a by auto
  have ly: "events (event y) AND EPOLLET = 0" "events (event y) AND EPOLLONESHOT = 0"
    using lx xy by simp_all
  have r: "snd (epollwatch_isReady g x) = snd (epollwatch_isReady g y)"
    using xy by (simp add: level_ready [OF lx] level_ready [OF ly])
  have e: "snd (epoll_getEvents_report (epollwatch_updateStatus g x)) =
           snd (epoll_getEvents_report (epollwatch_updateStatus g y))"
    by (rule report_refreshed_event [OF xy(1,2)])
  show ?case
    using Cons.IH [OF lt v] r e
    by (simp add: a t' Let_def split_beta isReady_fst)
qed

text \<open>
  C7. When no watch of the table is subscribed edge-triggered or one-shot, two
  consecutive calls of \<open>epoll_getEvents\<close> with the same capacity, with the descriptor
  statuses unchanged and the same answer of the OS \<open>epoll_wait\<close>, report the same
  watches with the same events, write the same array and return the same count.
\<close>

theorem level_triggered_collect_idempotent:
  assumes level: "table_all (\<lambda>k x. events (event x) AND EPOLLET = 0
                                  \<and> events (event x) AND EPOLLONESHOT = 0) w"
    and first: "epoll_getEvents env w eventArrayLength = Some (w1, reported1, eventArray1, nEvents1)"
    and second: "epoll_getEvents env' w1 eventArrayLength = Some (w2, reported2, eventArray2, nEvents2)"
    and os: "epoll_wait_os env' = epoll_wait_os env"
  shows "reported2 = reported1 \<and> eventArray2 = eventArray1 \<and> nEvents2 = nEvents1"
proof -
  define t where "t = watching (epoll w)"
  define g where "g = descriptor_status w"
  have g1: "descriptor_status w1 = g"
    using first
    by (auto simp add: epoll_getEvents_def Let_def split_beta check_fields g_def split: if_splits)
  have "table_view (watching (epoll w1)) = table_view (fst (epoll_getEvents_loop g eventArrayLength 0 t))"
    using first
    by (auto simp add: epoll_getEvents_def Let_def split_beta check_table view_check_loop g_def t_def
        split: if_splits)
  then have v: "table_view t = table_view (watching (epoll w1))"
    by (simp add: view_getEvents_loop)
  have lt: "\<forall>(k, x) \<in> set t. events (event x) AND EPOLLET = 0 \<and> events (event x) AND EPOLLONESHOT = 0"
    using level by (simp add: table_all_def t_def)
  have same: "snd (epoll_getEvents_loop g eventArrayLength 0 (watching (epoll w1))) =
              snd (epoll_getEvents_loop g eventArrayLength 0 t)"
    using level_loop_output [OF lt v] by simp
  show ?thesis
    using first second
    by (auto simp add: epoll_getEvents_def Let_def split_beta g1 same os
        g_def [symmetric] t_def [symmetric] split: if_splits)
qed


theorem level_triggered_collect_idempotent_witness:
  "snd (the (epoll_getEvents ex_env (fst (the (epoll_getEvents ex_env (ex_world_watching EPOLLIN) 4))) 4))
     = snd (the (epoll_getEvents ex_env (ex_world_watching EPOLLIN) 4))
   \<and> fst (snd (the (epoll_getEvents ex_env (ex_world_watching EPOLLIN) 4)))
     = [(7, \<lparr>events = EPOLLIN, data = 7\<rparr>)]"
proof -
  define r1 where "r1 = the (epoll_getEvents ex_env (ex_world_watching EPOLLIN) 4)"
  define r2 where "r2 = the (epoll_getEvents ex_env (fst r1) 4)"
  have level: "table_all (\<lambda>k x. events (event x) AND EPOLLET = 0
                                  \<and> events (event x) AND EPOLLONESHOT = 0) (ex_world_watching EPOLLIN)"
    by (simp add: table_all_def eval_defs)
  have e1: "epoll_getEvents ex_env (ex_world_watching EPOLLIN) 4
      = Some (fst r1, fst (snd r1), fst (snd (snd r1)), snd (snd (snd r1)))"
    unfolding r1_def by (simp add: eval_defs)
  have e2: "epoll_getEvents ex_env (fst r1) 4
      = Some (fst r2, fst (snd r2), fst (snd (snd r2)), snd (snd (snd r2)))"
    unfolding r2_def r1_def by (simp add: eval_defs)
  have rep: "fst (snd r1) = [(7, \<lparr>events = EPOLLIN, data = 7\<rparr>)]"
    unfolding r1_def by (simp add: eval_defs EPOLLIN_def)
  from level_triggered_collect_idempotent [OF level e1 e2 refl]
  have "snd r2 = snd r1" by (simp add: prod_eq_iff)
  with rep show ?thesis by (simp add: r1_def r2_def)
qed

section \<open>The table invariant\<close>

lemma keys_image: "fst ` set t = set (map fst t)"
  by simp

lemma replace_keys:
  "d \<notin> fst ` set t \<Longrightarrow> g_hash_table_replace t d v = t @ [(d, v)]"
  by (induction t) auto

lemma remove_subset: "set (g_hash_table_remove t d) \<subseteq> set t"
  by (induction t) (auto split: if_splits)

lemma remove_keys:
  "distinct (map fst t) \<Longrightarrow> fst ` set (g_hash_table_remove t d) = fst ` set t - {d}"
proof (induction t)
  case Nil
  then show ?case by simp
next
  case (Cons a t)
  then show ?case by (cases a) (auto simp add: image_iff)
qed

lemma remove_distinct:
  "distinct (map fst t) \<Longrightarrow> distinct (map fst (g_hash_table_remove t d))"
proof (induction t)
  case Nil
  then show ?case by simp
next
  case (Cons a t)
  obtain k x where a: "a = (k, x)" by (cases a)
  have "k \<notin> fst ` set (g_hash_table_remove t d)"
    using Cons.prems a remove_subset [of t d] by (auto simp add: image_iff)
  with Cons a show ?case by (auto simp add: image_iff)
qed

lemma store_keys: "map fst (watch_store t d v) = map fst t"
  by (induction t) auto

lemma store_set: "(k, x) \<in> set (watch_store t d v) \<Longrightarrow> (k, x) \<in> set t \<or> (k = d \<and> x = v)"
  by (induction t) (auto split: if_splits)

lemma clearWatchListeners_loop_eq:
  "epoll_clearWatchListeners_loop t ls = ls - descriptor ` snd ` set t"
proof (induction t arbitrary: ls)
  case Nil
  then show ?case by simp
next
  case (Cons a t)
  obtain k x where a: "a = (k, x)" by (cases a)
  show ?case unfolding a by (simp add: Cons.IH) blast
qed

lemma check_skip:
  "epoll_flags (epoll w) AND EF_NOTIFYING \<noteq> 0 \<or> epoll_flags (epoll w) AND EF_CLOSED \<noteq> 0
    \<Longrightarrow> epoll_check env w = w"
  by (auto simp add: epoll_check_def)

lemma check_lifecycle:
  assumes "lifecycle_inv w"
    and "host_closes w = 0 \<or> epoll_flags (epoll w) AND EF_CLOSED \<noteq> 0"
  shows "lifecycle_inv (epoll_check env w)"
proof (cases "epoll_flags (epoll w) AND EF_NOTIFYING \<noteq> 0 \<or> epoll_flags (epoll w) AND EF_CLOSED \<noteq> 0")
  case True
  then show ?thesis using assms(1) by (simp add: check_skip)
next
  case False
  with assms(2) have h: "host_closes w = 0" by auto
  show ?thesis
    using assms(1) False h check_tasks [of env w] check_flags [of env w] check_keys [of env w]
    by (auto simp add: lifecycle_inv_def EF_test check_fields keys_image simp del: set_map)
qed

lemma check_table_inv:
  assumes "watch_table_inv w"
  shows "watch_table_inv (epoll_check env w)"
proof -
  have "table_all (\<lambda>k x. descriptor x = k \<and> flags x AND EWF_WATCHING \<noteq> 0) (epoll_check env w)"
    by (rule check_table_all)
      (use assms in \<open>auto simp add: watch_table_inv_def table_all_def updateStatus_fields
        EWF_test updateStatus_bits\<close>)
  then show ?thesis
    using assms by (simp add: watch_table_inv_def table_all_def check_keys)
qed


lemma EWF_WATCHING_nonzero: "EWF_WATCHING \<noteq> 0"
  by (simp add: EWF_WATCHING_def)

lemma table_inv_appended:
  assumes "watch_table_inv w" and "d \<notin> fst ` set (watching (epoll w))"
    and "descriptor v = d" and "flags v AND EWF_WATCHING \<noteq> 0"
    and "watching (epoll w') = g_hash_table_replace (watching (epoll w)) d v"
  shows "watch_table_inv w'"
  using assms by (auto simp add: watch_table_inv_def replace_keys)

lemma table_inv_stored:
  assumes "watch_table_inv w"
    and "descriptor v = d" and "flags v AND EWF_WATCHING \<noteq> 0"
    and "watching (epoll w') = watch_store (watching (epoll w)) d v"
  shows "watch_table_inv w'"
  using assms by (auto simp add: watch_table_inv_def store_keys dest!: store_set)

lemma table_inv_removed:
  assumes "watch_table_inv w"
    and "watching (epoll w') = g_hash_table_remove (watching (epoll w)) d"
  shows "watch_table_inv w'"
  using assms remove_subset [of "watching (epoll w)" d]
  by (auto simp add: watch_table_inv_def remove_distinct)

lemma table_inv_same:
  "watching (epoll w') = watching (epoll w) \<Longrightarrow> watch_table_inv w' = watch_table_inv w"
  by (simp add: watch_table_inv_def)

lemma control_table_inv:
  assumes inv: "watch_table_inv w"
    and c: "epoll_control env w operation d ev = Some (w', r)"
  shows "watch_table_inv w'"
proof -
  consider (add) e where "operation = EPOLL_CTL_ADD" "g_hash_table_lookup (watching (epoll w)) d = None"
      "ev = Some e"
    | (mod) x e where "operation = EPOLL_CTL_MOD" "g_hash_table_lookup (watching (epoll w)) d = Some x"
      "ev = Some e" "flags x AND EWF_WATCHING \<noteq> 0"
    | (del) x where "operation = EPOLL_CTL_DEL" "g_hash_table_lookup (watching (epoll w)) d = Some x"
    | (same) "w' = w"
    using c
    by (auto simp add: epoll_control_def Let_def EPOLL_CTL_ADD_def EPOLL_CTL_MOD_def
        EPOLL_CTL_DEL_def split: option.splits if_splits)
  then show ?thesis
  proof cases
    case add
    define v where "v = \<lparr>descriptor = d, event = e, flags = 0 OR EWF_WATCHING, referenceCount = 1\<rparr>"
    define w2 where "w2 = w\<lparr>epoll := (epoll w)\<lparr>watching :=
        g_hash_table_replace (watching (epoll w)) d v\<rparr>, epoll_listeners := insert d (epoll_listeners w)\<rparr>"
    have w': "w' = epoll_check env w2"
      using c add by (simp add: epoll_control_def Let_def w2_def v_def)
    have "watch_table_inv w2"
      by (rule table_inv_appended [OF inv, of d v])
        (use add in \<open>simp_all add: lookup_None_keys v_def w2_def EWF_WATCHING_nonzero\<close>)
    then show ?thesis unfolding w' by (rule check_table_inv)
  next
    case mod
    define v where "v = x\<lparr>event := e, flags := (flags x AND NOT EWF_EDGETRIGGER_REPORTED)
        AND NOT EWF_ONESHOT_REPORTED\<rparr>"
    define w1 where "w1 = w\<lparr>epoll := (epoll w)\<lparr>watching := watch_store (watching (epoll w)) d v\<rparr>\<rparr>"
    have w': "w' = epoll_check env w1"
      using c mod
      by (simp add: epoll_control_def Let_def w1_def v_def EPOLL_CTL_ADD_def EPOLL_CTL_MOD_def)
    have dx: "descriptor x = d"
      using lookup_in_table [OF mod(2)] inv by (auto simp add: watch_table_inv_def)
    have "watch_table_inv w1"
      by (rule table_inv_stored [OF inv, of v d])
        (use mod dx in \<open>simp_all add: v_def w1_def flag_bits\<close>)
    then show ?thesis unfolding w' by (rule check_table_inv)
  next
    case del
    have dx: "descriptor x = d"
      using lookup_in_table [OF del(2)] inv by (auto simp add: watch_table_inv_def)
    have "watching (epoll w') = g_hash_table_remove (watching (epoll w)) d"
      using c del dx
      by (auto simp add: epoll_control_def Let_def EPOLL_CTL_ADD_def EPOLL_CTL_MOD_def
          EPOLL_CTL_DEL_def)
    then show ?thesis by (rule table_inv_removed [OF inv])
  next
    case same
    then show ?thesis using inv by simp
  qed
qed

lemma getEvents_world:
  assumes "epoll_getEvents env w n = Some (w', reported, arr, cnt)"
  shows "\<exists>w1. w' = epoll_check env w1
      \<and> watching (epoll w1) = fst (epoll_getEvents_loop (descriptor_status w) n 0 (watching (epoll w)))
      \<and> reported = snd (epoll_getEvents_loop (descriptor_status w) n 0 (watching (epoll w)))
      \<and> epoll_flags (epoll w1) = epoll_flags (epoll w)
      \<and> descriptor_status w1 = descriptor_status w
      \<and> epoll_listeners w1 = epoll_listeners w
      \<and> tasks w1 = tasks w \<and> host_closes w1 = host_closes w"
  using assms
  by (auto simp add: epoll_getEvents_def Let_def split_beta split: if_splits)

lemma loop_table_inv:
  assumes "watch_table_inv w"
    and "watching (epoll w1) = fst (epoll_getEvents_loop g n i (watching (epoll w)))"
  shows "watch_table_inv w1"
proof -
  have "\<forall>(k, x) \<in> set (fst (epoll_getEvents_loop g n i (watching (epoll w)))).
          descriptor x = k \<and> flags x AND EWF_WATCHING \<noteq> 0"
    by (rule getEvents_loop_all)
      (use assms(1) in \<open>auto simp add: watch_table_inv_def updateStatus_fields EWF_test
        updateStatus_bits report_fields report_flags\<close>)
  then show ?thesis
    using assms by (simp add: watch_table_inv_def getEvents_loop_keys)
qed

lemma getEvents_table_inv:
  assumes "watch_table_inv w" and "epoll_getEvents env w n = Some (w', reported, arr, cnt)"
  shows "watch_table_inv w'"
proof -
  from getEvents_world [OF assms(2)] obtain w1 where w1: "w' = epoll_check env w1"
    "watching (epoll w1) = fst (epoll_getEvents_loop (descriptor_status w) n 0 (watching (epoll w)))"
    by blast
  have "watch_table_inv w1" by (rule loop_table_inv [OF assms(1) w1(2)])
  then show ?thesis unfolding w1(1) by (rule check_table_inv)
qed

lemma tryNotify_loop_table_inv:
  assumes "watch_table_inv w"
    and "watching (epoll w1) = fst (epoll_tryNotify_loop g b (watching (epoll w)))"
  shows "watch_table_inv w1"
proof -
  have "\<forall>(k, x) \<in> set (fst (epoll_tryNotify_loop g b (watching (epoll w)))).
          descriptor x = k \<and> flags x AND EWF_WATCHING \<noteq> 0"
    by (rule tryNotify_loop_all)
      (use assms(1) in \<open>auto simp add: watch_table_inv_def updateStatus_fields EWF_test
        updateStatus_bits\<close>)
  then show ?thesis
    using assms by (simp add: watch_table_inv_def tryNotify_loop_keys)
qed

lemma tryNotify_enter_table:
  assumes "epoll_tryNotify_enter env w = Some (w', b)"
  shows "watching (epoll w') = watching (epoll w)
       \<or> watching (epoll w') = fst (epoll_tryNotify_loop (descriptor_status w) False (watching (epoll w)))"
  using assms
  by (auto simp add: epoll_tryNotify_enter_def Let_def split_beta epoll_close_def
      epoll_clearWatchListeners_def isReadyOS_fields split: if_splits)

lemma step_table_inv:
  assumes "watch_table_inv w" and "step env w a = Some w'"
  shows "watch_table_inv w'"
proof (cases a)
  case (Control operation d ev)
  with assms show ?thesis
    by (auto split: if_splits intro: control_table_inv)
next
  case (GetEvents n)
  with assms show ?thesis
    by (auto split: if_splits intro: getEvents_table_inv)
next
  case Close
  with assms show ?thesis
    by (auto simp add: epoll_tryToClose_def epoll_close_def epoll_clearWatchListeners_def
        Let_def watch_table_inv_def split: if_splits)
next
  case (StatusChanged d s)
  define w1 where "w1 = w\<lparr>descriptor_status := (descriptor_status w)(d := s)\<rparr>"
  have i1: "watch_table_inv w1" using assms(1) by (simp add: w1_def watch_table_inv_def)
  from assms(2) StatusChanged have "w' = w1 \<or> w' = epoll_check env w1"
    by (auto simp add: Let_def w1_def epoll_descriptorStatusChanged_def
        split: if_splits option.splits)
  with i1 show ?thesis by (auto intro: check_table_inv)
next
  case TaskRun
  with assms(2) obtain b where e: "epoll_tryNotify_enter env (w\<lparr>tasks := tasks w - 1\<rparr>) = Some (w', b)"
    by (auto split: if_splits)
  from tryNotify_enter_table [OF e] show ?thesis
  proof
    assume "watching (epoll w') = watching (epoll (w\<lparr>tasks := tasks w - 1\<rparr>))"
    then show ?thesis using assms(1) by (simp add: watch_table_inv_def)
  next
    assume "watching (epoll w') = fst (epoll_tryNotify_loop (descriptor_status (w\<lparr>tasks := tasks w - 1\<rparr>))
        False (watching (epoll (w\<lparr>tasks := tasks w - 1\<rparr>))))"
    then show ?thesis
      using tryNotify_loop_table_inv [OF assms(1), of w' "descriptor_status w" False] by simp
  qed
next
  case ContinueReturn
  with assms(2) have w': "w' = epoll_check env
      (w\<lparr>epoll := (epoll w)\<lparr>epoll_flags := epoll_flags (epoll w) AND NOT EF_NOTIFYING\<rparr>\<rparr>)"
    by (auto simp add: epoll_tryNotify_return_def split: if_splits)
  show ?thesis unfolding w'
    by (rule check_table_inv) (use assms(1) in \<open>simp add: watch_table_inv_def\<close>)
qed

lemma run_table_inv:
  "watch_table_inv w \<Longrightarrow> run w acts = Some w' \<Longrightarrow> watch_table_inv w'"
proof (induction acts arbitrary: w)
  case Nil
  then show ?case by simp
next
  case (Cons p acts)
  obtain env a where p: "p = (env, a)" by (cases p)
  from Cons.prems(2) p obtain w1 where s: "step env w a = Some w1" and r: "run w1 acts = Some w'"
    by (auto split: option.splits)
  from step_table_inv [OF Cons.prems(1) s] have "watch_table_inv w1" .
  from Cons.IH [OF this r] show ?case .
qed

lemma world_new_table_inv: "watch_table_inv (world_new handle osfd status)"
  by (simp add: watch_table_inv_def world_new_def epoll_new_def)

section \<open>Scheduling and closing\<close>

lemma descriptors_are_keys:
  "watch_table_inv w \<Longrightarrow> descriptor ` snd ` set (watching (epoll w)) = fst ` set (watching (epoll w))"
  by (force simp add: watch_table_inv_def image_iff)

lemma close_lifecycle:
  assumes "watch_table_inv w" and "epoll_listeners w \<subseteq> fst ` set (watching (epoll w))"
  shows "epoll_listeners (epoll_close w) = {}" "host_closes (epoll_close w) = host_closes w + 1"
    "epoll (epoll_close w) = epoll w" "tasks (epoll_close w) = tasks w"
    "descriptor_status (epoll_close w) = descriptor_status w"
  using assms descriptors_are_keys [OF assms(1)]
  by (auto simp add: epoll_close_def epoll_clearWatchListeners_def Let_def
      clearWatchListeners_loop_eq)

lemma tryToClose_lifecycle:
  assumes l: "lifecycle_inv w" and t: "watch_table_inv w" and h: "host_closes w = 0"
  shows "lifecycle_inv (epoll_tryToClose w)"
proof -
  define w1 where "w1 = w\<lparr>epoll := (epoll w)\<lparr>epoll_flags := epoll_flags (epoll w) OR EF_CLOSED\<rparr>\<rparr>"
  have t1: "watch_table_inv w1" using t by (simp add: w1_def watch_table_inv_def)
  have l1: "epoll_listeners w1 \<subseteq> fst ` set (watching (epoll w1))"
    using l by (simp add: w1_def lifecycle_inv_def)
  show ?thesis
  proof (cases "epoll_flags (epoll w) AND EF_SCHEDULED \<noteq> 0")
    case True
    then have "epoll_tryToClose w = w1"
      by (simp add: epoll_tryToClose_def Let_def w1_def flag_bits flag_nonzero)
    then show ?thesis
      using l h True by (simp add: lifecycle_inv_def w1_def flag_bits flag_nonzero)
  next
    case False
    then have e: "epoll_tryToClose w = epoll_close w1"
      by (simp add: epoll_tryToClose_def Let_def w1_def flag_bits flag_nonzero)
    show ?thesis
      unfolding e using l h False
      by (simp add: lifecycle_inv_def close_lifecycle [OF t1 l1]) (simp add: w1_def flag_bits flag_nonzero)
  qed
qed

lemma control_lifecycle:
  assumes l: "lifecycle_inv w" and t: "watch_table_inv w" and h: "host_closes w = 0"
    and c: "epoll_control env w operation d ev = Some (w', r)"
  shows "lifecycle_inv w'"
proof -
  consider (add) e where "operation = EPOLL_CTL_ADD" "g_hash_table_lookup (watching (epoll w)) d = None"
      "ev = Some e"
    | (mod) x e where "operation = EPOLL_CTL_MOD" "g_hash_table_lookup (watching (epoll w)) d = Some x"
      "ev = Some e" "flags x AND EWF_WATCHING \<noteq> 0"
    | (del) x where "operation = EPOLL_CTL_DEL" "g_hash_table_lookup (watching (epoll w)) d = Some x"
    | (same) "w' = w"
    using c
    by (auto simp add: epoll_control_def Let_def EPOLL_CTL_ADD_def EPOLL_CTL_MOD_def
        EPOLL_CTL_DEL_def split: option.splits if_splits)
  then show ?thesis
  proof cases
    case add
    define v where "v = \<lparr>descriptor = d, event = e, flags = 0 OR EWF_WATCHING, referenceCount = 1\<rparr>"
    define w2 where "w2 = w\<lparr>epoll := (epoll w)\<lparr>watching :=
        g_hash_table_replace (watching (epoll w)) d v\<rparr>, epoll_listeners := insert d (epoll_listeners w)\<rparr>"
    have w': "w' = epoll_check env w2"
      using c add by (simp add: epoll_control_def Let_def w2_def v_def)
    have "lifecycle_inv w2"
      using l h add by (auto simp add: lifecycle_inv_def w2_def lookup_None_keys replace_keys)
    moreover have "host_closes w2 = 0" using h by (simp add: w2_def)
    ultimately show ?thesis unfolding w' by (simp add: check_lifecycle)
  next
    case mod
    define v where "v = x\<lparr>event := e, flags := (flags x AND NOT EWF_EDGETRIGGER_REPORTED)
        AND NOT EWF_ONESHOT_REPORTED\<rparr>"
    define w1 where "w1 = w\<lparr>epoll := (epoll w)\<lparr>watching := watch_store (watching (epoll w)) d v\<rparr>\<rparr>"
    have w': "w' = epoll_check env w1"
      using c mod
      by (simp add: epoll_control_def Let_def w1_def v_def EPOLL_CTL_ADD_def EPOLL_CTL_MOD_def)
    have "lifecycle_inv w1"
      using l h by (simp add: lifecycle_inv_def w1_def keys_image store_keys del: set_map)
    moreover have "host_closes w1 = 0" using h by (simp add: w1_def)
    ultimately show ?thesis unfolding w' by (simp add: check_lifecycle)
  next
    case del
    have dx: "descriptor x = d"
      using lookup_in_table [OF del(2)] t by (auto simp add: watch_table_inv_def)
    have w': "w' = w\<lparr>epoll_listeners := epoll_listeners w - {d},
        epoll := (epoll w)\<lparr>watching := g_hash_table_remove (watching (epoll w)) d\<rparr>\<rparr>"
      using c del dx
      by (auto simp add: epoll_control_def Let_def EPOLL_CTL_ADD_def EPOLL_CTL_MOD_def
          EPOLL_CTL_DEL_def)
    have "distinct (map fst (watching (epoll w)))" using t by (simp add: watch_table_inv_def)
    from remove_keys [OF this, of d] show ?thesis
      unfolding w' using l h by (auto simp add: lifecycle_inv_def)
  next
    case same
    then show ?thesis using l by simp
  qed
qed

lemma getEvents_lifecycle:
  assumes l: "lifecycle_inv w" and h: "host_closes w = 0"
    and c: "epoll_getEvents env w n = Some (w', reported, arr, cnt)"
  shows "lifecycle_inv w'"
proof -
  from getEvents_world [OF c] obtain w1 where w1: "w' = epoll_check env w1"
    "watching (epoll w1) = fst (epoll_getEvents_loop (descriptor_status w) n 0 (watching (epoll w)))"
    "epoll_flags (epoll w1) = epoll_flags (epoll w)" "epoll_listeners w1 = epoll_listeners w"
    "tasks w1 = tasks w" "host_closes w1 = host_closes w"
    by blast
  have "lifecycle_inv w1"
    using l h w1(3-6)
    by (simp add: lifecycle_inv_def w1(2) keys_image getEvents_loop_keys del: set_map)
  then show ?thesis unfolding w1(1) using h w1(6) by (simp add: check_lifecycle)
qed

lemma tryNotify_enter_closing:
  assumes "epoll_tryNotify_enter env w = Some (w', b)"
    and "epoll_flags (epoll w) AND EF_CLOSED \<noteq> 0 \<or> \<not> process_isRunning env"
  shows "w' = epoll_close (w\<lparr>epoll := (epoll w)\<lparr>epoll_flags := epoll_flags (epoll w) AND NOT EF_SCHEDULED\<rparr>\<rparr>)"
    and "\<not> b"
  using assms by (auto simp add: epoll_tryNotify_enter_def Let_def flag_bits)

lemma tryNotify_enter_fields:
  assumes "epoll_tryNotify_enter env w = Some (w', b)"
    and "epoll_flags (epoll w) AND EF_CLOSED = 0" and "process_isRunning env"
  shows "watching (epoll w') = fst (epoll_tryNotify_loop (descriptor_status w) False (watching (epoll w)))"
    and "epoll_flags (epoll w') =
      (if b then (epoll_flags (epoll w) AND NOT EF_SCHEDULED) OR EF_NOTIFYING
       else epoll_flags (epoll w) AND NOT EF_SCHEDULED)"
    and "tasks w' = tasks w" and "host_closes w' = host_closes w"
    and "epoll_listeners w' = epoll_listeners w" and "descriptor_status w' = descriptor_status w"
  using assms
  by (auto simp add: epoll_tryNotify_enter_def Let_def split_beta isReadyOS_fields flag_bits
      split: if_splits)

lemma tryNotify_enter_lifecycle:
  assumes l: "lifecycle_inv w" and t: "watch_table_inv w"
    and task: "tasks w \<noteq> 0" and n: "epoll_flags (epoll w) AND EF_NOTIFYING = 0"
    and e: "epoll_tryNotify_enter env (w\<lparr>tasks := tasks w - 1\<rparr>) = Some (w', b)"
  shows "lifecycle_inv w'"
proof -
  have s: "epoll_flags (epoll w) AND EF_SCHEDULED \<noteq> 0" "tasks w = 1" "host_closes w = 0"
    using l task by (auto simp add: lifecycle_inv_def split: if_splits)
  show ?thesis
  proof (cases "epoll_flags (epoll w) AND EF_CLOSED \<noteq> 0 \<or> \<not> process_isRunning env")
    case True
    define w1 where "w1 = w\<lparr>tasks := tasks w - 1,
      epoll := (epoll w)\<lparr>epoll_flags := epoll_flags (epoll w) AND NOT EF_SCHEDULED\<rparr>\<rparr>"
    have t1: "watch_table_inv w1" using t by (simp add: w1_def watch_table_inv_def)
    have l1: "epoll_listeners w1 \<subseteq> fst ` set (watching (epoll w1))"
      using l by (simp add: w1_def lifecycle_inv_def)
    have w': "w' = epoll_close w1"
      using tryNotify_enter_closing(1) [OF e] True by (simp add: w1_def)
    show ?thesis
      unfolding w' using s n
      by (simp add: lifecycle_inv_def close_lifecycle [OF t1 l1])
        (simp add: w1_def flag_bits flag_nonzero)
  next
    case False
    then have nc: "epoll_flags (epoll (w\<lparr>tasks := tasks w - 1\<rparr>)) AND EF_CLOSED = 0"
      "process_isRunning env" by simp_all
    note f = tryNotify_enter_fields [OF e nc]
    have k: "fst ` set (watching (epoll w')) = fst ` set (watching (epoll w))"
      using tryNotify_loop_keys [of "descriptor_status w" False "watching (epoll w)"] f(1)
      by (simp add: keys_image del: set_map)
    have fl: "bit (epoll_flags (epoll w')) 0 = False"
      "bit (epoll_flags (epoll w')) (Suc 0) = b"
      "bit (epoll_flags (epoll w')) 2 = False"
      using f(2) False n by (simp_all add: flag_bits)
    have c: "tasks w' = 0" "host_closes w' = 0" "epoll_listeners w' = epoll_listeners w"
      using f(3-5) s by simp_all
    have "epoll_listeners w \<subseteq> fst ` set (watching (epoll w))"
      using l by (simp add: lifecycle_inv_def)
    then show ?thesis
      by (simp add: lifecycle_inv_def EF_test fl c k)
  qed
qed

lemma tryNotify_return_lifecycle:
  assumes l: "lifecycle_inv w" and n: "epoll_flags (epoll w) AND EF_NOTIFYING \<noteq> 0"
  shows "lifecycle_inv (epoll_tryNotify_return env w)"
proof -
  define w1 where "w1 = w\<lparr>epoll := (epoll w)\<lparr>epoll_flags := epoll_flags (epoll w) AND NOT EF_NOTIFYING\<rparr>\<rparr>"
  have l1: "lifecycle_inv w1"
    using l n by (auto simp add: lifecycle_inv_def w1_def flag_bits flag_nonzero)
  have "host_closes w1 = 0 \<or> epoll_flags (epoll w1) AND EF_CLOSED \<noteq> 0"
    using l n by (auto simp add: lifecycle_inv_def w1_def flag_bits flag_nonzero)
  with l1 show ?thesis
    by (simp add: epoll_tryNotify_return_def w1_def [symmetric] check_lifecycle)
qed

lemma step_lifecycle:
  assumes l: "lifecycle_inv w" and t: "watch_table_inv w" and s: "step env w a = Some w'"
  shows "lifecycle_inv w'"
proof (cases a)
  case (Control operation d ev)
  with s l t show ?thesis
    by (auto split: if_splits intro: control_lifecycle)
next
  case (GetEvents n)
  with s l show ?thesis
    by (auto split: if_splits intro: getEvents_lifecycle)
next
  case Close
  with s l t show ?thesis
    by (auto split: if_splits intro: tryToClose_lifecycle)
next
  case (StatusChanged d s')
  define w1 where "w1 = w\<lparr>descriptor_status := (descriptor_status w)(d := s')\<rparr>"
  have l1: "lifecycle_inv w1" using l by (simp add: w1_def lifecycle_inv_def)
  show ?thesis
  proof (cases "d \<in> epoll_listeners w")
    case True
    then have "host_closes w1 = 0" using l by (auto simp add: lifecycle_inv_def w1_def)
    moreover from s StatusChanged True have "w' = epoll_check env w1"
      by (auto simp add: Let_def w1_def epoll_descriptorStatusChanged_def
          split: if_splits option.splits)
    ultimately show ?thesis using l1 by (simp add: check_lifecycle)
  next
    case False
    with s StatusChanged have "w' = w1" by (simp add: Let_def w1_def)
    with l1 show ?thesis by simp
  qed
next
  case TaskRun
  with s obtain b where e: "epoll_tryNotify_enter env (w\<lparr>tasks := tasks w - 1\<rparr>) = Some (w', b)"
    and c: "tasks w \<noteq> 0" "epoll_flags (epoll w) AND EF_NOTIFYING = 0"
    by (auto split: if_splits)
  from tryNotify_enter_lifecycle [OF l t c e] show ?thesis .
next
  case ContinueReturn
  with s have "epoll_flags (epoll w) AND EF_NOTIFYING \<noteq> 0" "w' = epoll_tryNotify_return env w"
    by (auto split: if_splits)
  with tryNotify_return_lifecycle [OF l] show ?thesis by simp
qed

lemma run_lifecycle:
  "lifecycle_inv w \<Longrightarrow> watch_table_inv w \<Longrightarrow> run w acts = Some w' \<Longrightarrow> lifecycle_inv w'"
proof (induction acts arbitrary: w)
  case Nil
  then show ?case by simp
next
  case (Cons p acts)
  obtain env a where p: "p = (env, a)" by (cases p)
  from Cons.prems(3) p obtain w1 where s: "step env w a = Some w1" and r: "run w1 acts = Some w'"
    by (auto split: option.splits)
  from step_lifecycle [OF Cons.prems(1,2) s] step_table_inv [OF Cons.prems(2) s]
  have "lifecycle_inv w1" "watch_table_inv w1" .
  from Cons.IH [OF this r] show ?case .
qed

lemma world_new_lifecycle: "lifecycle_inv (world_new handle osfd status)"
  by (simp add: lifecycle_inv_def world_new_def epoll_new_def)

section \<open>The check while notifying or closed\<close>

lemma continuation_step:
  assumes n: "epoll_flags (epoll w) AND EF_NOTIFYING \<noteq> 0"
    and a: "in_continuation a" and s: "step env w a = Some w'"
  shows "epoll_flags (epoll w') AND EF_NOTIFYING \<noteq> 0 \<and> tasks w' = tasks w
    \<and> (epoll_flags (epoll w') AND EF_SCHEDULED \<noteq> 0) = (epoll_flags (epoll w) AND EF_SCHEDULED \<noteq> 0)
    \<and> super_status (epoll w') = super_status (epoll w)"
proof (cases a)
  case (Control operation d ev)
  with s n show ?thesis
    by (auto simp add: epoll_control_def Let_def check_skip split: if_splits option.splits)
next
  case (GetEvents eventArrayLength)
  with s obtain reported arr cnt where g: "epoll_getEvents env w eventArrayLength = Some (w', reported, arr, cnt)"
    by (auto split: if_splits)
  from getEvents_world [OF g] obtain w1 where w1: "w' = epoll_check env w1"
    "epoll_flags (epoll w1) = epoll_flags (epoll w)" "tasks w1 = tasks w"
    by blast
  have "super_status (epoll w') = super_status (epoll w)"
    using g n by (auto simp add: epoll_getEvents_def Let_def split_beta check_skip split: if_splits)
  moreover have "w' = w1" using w1(1,2) n by (simp add: check_skip)
  ultimately show ?thesis using w1(2,3) n by simp
next
  case Close
  with s n show ?thesis
    by (auto simp add: epoll_tryToClose_def epoll_close_def epoll_clearWatchListeners_def Let_def
        flag_bits flag_nonzero split: if_splits)
next
  case (StatusChanged d st)
  with s n show ?thesis
    by (auto simp add: epoll_descriptorStatusChanged_def Let_def check_skip
        split: if_splits option.splits)
next
  case TaskRun
  with a show ?thesis by simp
next
  case ContinueReturn
  with a show ?thesis by simp
qed

lemma continuation_run:
  assumes "epoll_flags (epoll w) AND EF_NOTIFYING \<noteq> 0"
    and "\<forall>(env, a) \<in> set acts. in_continuation a" and "run w acts = Some w'"
  shows "epoll_flags (epoll w') AND EF_NOTIFYING \<noteq> 0 \<and> tasks w' = tasks w
    \<and> (epoll_flags (epoll w') AND EF_SCHEDULED \<noteq> 0) = (epoll_flags (epoll w) AND EF_SCHEDULED \<noteq> 0)
    \<and> super_status (epoll w') = super_status (epoll w)"
  using assms
proof (induction acts arbitrary: w)
  case Nil
  then show ?case by simp
next
  case (Cons p acts)
  obtain env a where p: "p = (env, a)" by (cases p)
  from Cons.prems(3) p obtain w1 where s: "step env w a = Some w1" and r: "run w1 acts = Some w'"
    by (auto split: option.splits)
  from Cons.prems(2) p have a: "in_continuation a" and rest: "\<forall>(env, a) \<in> set acts. in_continuation a"
    by auto
  note c = continuation_step [OF Cons.prems(1) a s]
  from c have "epoll_flags (epoll w1) AND EF_NOTIFYING \<noteq> 0" by simp
  from Cons.IH [OF this rest r] c show ?case by simp
qed

text \<open>
  C8, as the code has it. When \<open>EF_NOTIFYING\<close> or \<open>EF_CLOSED\<close> is set, \<open>_epoll_check\<close>
  returns at once and leaves the whole state as it is: no watch is evaluated, the
  epoll's own status is not adjusted, no task is scheduled and no system call is made.
  For the whole continuation run by the notify task, that is for every run of actions
  of the application and of the descriptors that starts with \<open>EF_NOTIFYING\<close> set,
  \<open>EF_NOTIFYING\<close> stays set, no notify task is scheduled, \<open>EF_SCHEDULED\<close> keeps its
  value and the epoll's own status is not changed.
\<close>

theorem check_skipped_while_notifying_or_closed:
  "(epoll_flags (epoll w) AND EF_NOTIFYING \<noteq> 0 \<or> epoll_flags (epoll w) AND EF_CLOSED \<noteq> 0
      \<longrightarrow> epoll_check env w = w)
   \<and> (epoll_flags (epoll w) AND EF_NOTIFYING \<noteq> 0 \<and> (\<forall>(env, a) \<in> set acts. in_continuation a)
        \<and> run w acts = Some w'
      \<longrightarrow> epoll_flags (epoll w') AND EF_NOTIFYING \<noteq> 0 \<and> tasks w' = tasks w
          \<and> (epoll_flags (epoll w') AND EF_SCHEDULED \<noteq> 0) = (epoll_flags (epoll w) AND EF_SCHEDULED \<noteq> 0)
          \<and> super_status (epoll w') = super_status (epoll w))"
  using check_skip [of w env] continuation_run [of w acts w'] by blast

theorem check_skipped_while_notifying_or_closed_witness:
  "epoll_check ex_env ex_world_notifying = ex_world_notifying
   \<and> tasks (the (run ex_world_notifying
        [(ex_env, GetEvents 4), (ex_env, StatusChanged 7 ex_idle), (ex_env, StatusChanged 7 ex_readable)])) = 0"
proof -
  define acts where "acts = [(ex_env, GetEvents 4), (ex_env, StatusChanged 7 ex_idle),
    (ex_env, StatusChanged 7 ex_readable)]"
  have n: "epoll_flags (epoll ex_world_notifying) AND EF_NOTIFYING \<noteq> 0"
    by (simp add: eval_defs)
  have t: "tasks ex_world_notifying = 0"
    by (simp add: eval_defs)
  have c: "\<forall>(env, a) \<in> set acts. in_continuation a" by (simp add: acts_def)
  have r: "run ex_world_notifying acts = Some (the (run ex_world_notifying acts))"
    by (simp add: acts_def eval_defs)
  from check_skipped_while_notifying_or_closed [of ex_world_notifying ex_env acts
      "the (run ex_world_notifying acts)"] n c r t
  show ?thesis by (simp add: acts_def)
qed


text \<open>
  C8 as stated fails in its last part: while \<open>EF_NOTIFYING\<close> is set, a close by the
  application is finalized at once (\<open>_epoll_close\<close> runs), since \<open>_epoll_tryToClose\<close>
  looks at \<open>EF_SCHEDULED\<close> only, which \<open>_epoll_tryNotify\<close> has cleared at its entry.
\<close>

theorem close_while_notifying_finalizes:
  "epoll_flags (epoll ex_world_notifying) AND EF_NOTIFYING \<noteq> 0
   \<and> host_closes ex_world_notifying = 0
   \<and> step ex_env ex_world_notifying Close \<noteq> None
   \<and> host_closes (the (step ex_env ex_world_notifying Close)) = 1
   \<and> epoll_flags (epoll (the (step ex_env ex_world_notifying Close))) AND EF_NOTIFYING \<noteq> 0"
  by (simp add: eval_defs)

section \<open>Closing and the pending notify task\<close>

lemma tryToClose_effect:
  "epoll_flags (epoll (epoll_tryToClose w)) AND EF_CLOSED \<noteq> 0"
  "epoll_flags (epoll w) AND EF_SCHEDULED \<noteq> 0 \<Longrightarrow>
     epoll_tryToClose w = w\<lparr>epoll := (epoll w)\<lparr>epoll_flags := epoll_flags (epoll w) OR EF_CLOSED\<rparr>\<rparr>"
  "epoll_flags (epoll w) AND EF_SCHEDULED = 0 \<Longrightarrow>
     epoll_tryToClose w =
       epoll_close (w\<lparr>epoll := (epoll w)\<lparr>epoll_flags := epoll_flags (epoll w) OR EF_CLOSED\<rparr>\<rparr>)"
  by (simp_all add: epoll_tryToClose_def epoll_close_def epoll_clearWatchListeners_def Let_def
      flag_bits flag_nonzero)

lemma pending_task_closes:
  assumes l: "lifecycle_inv w" and t: "watch_table_inv w"
    and c: "epoll_flags (epoll w) AND EF_CLOSED \<noteq> 0" and p: "tasks w \<noteq> 0"
  shows "\<exists>w'. step env w TaskRun = Some w' \<and> host_closes w' = 1 \<and> tasks w' = 0
      \<and> epoll_listeners w' = {} \<and> epoll_flags (epoll w') AND EF_NOTIFYING = 0"
proof -
  have s: "epoll_flags (epoll w) AND EF_SCHEDULED \<noteq> 0" "tasks w = 1" "host_closes w = 0"
    "epoll_flags (epoll w) AND EF_NOTIFYING = 0"
    using l p by (auto simp add: lifecycle_inv_def split: if_splits)
  define w1 where "w1 = w\<lparr>tasks := tasks w - 1,
      epoll := (epoll w)\<lparr>epoll_flags := epoll_flags (epoll w) AND NOT EF_SCHEDULED\<rparr>\<rparr>"
  have t1: "watch_table_inv w1" using t by (simp add: w1_def watch_table_inv_def)
  have l1: "epoll_listeners w1 \<subseteq> fst ` set (watching (epoll w1))"
    using l by (simp add: w1_def lifecycle_inv_def)
  have e: "step env w TaskRun = Some (epoll_close w1)"
    using s c by (simp add: epoll_tryNotify_enter_def Let_def w1_def flag_bits)
  show ?thesis
    unfolding e using s
    by (simp add: close_lifecycle [OF t1 l1]) (simp add: w1_def flag_bits)
qed

text \<open>
  C9, as the code has it. In every state an epoll reaches from \<open>epoll_new\<close>:
  \<open>_epoll_tryToClose\<close> sets \<open>EF_CLOSED\<close>; if \<open>EF_SCHEDULED\<close> is not set it runs
  \<open>_epoll_close\<close> at once (all listeners removed, the host told to close the handle);
  if \<open>EF_SCHEDULED\<close> is set it only sets \<open>EF_CLOSED\<close>, and the pending notify task,
  when it runs on the closed epoll, runs \<open>_epoll_close\<close> at its entry and returns
  without entering \<open>process_continue\<close>. \<open>_epoll_close\<close> runs at most once, never
  while a notify task is scheduled, and on a closed epoll it has run exactly if no
  notify task is scheduled; a task is scheduled exactly while \<open>EF_SCHEDULED\<close> is set.
\<close>

theorem close_finalizes_once:
  assumes r: "run (world_new handle osfd status) acts = Some w"
  shows "epoll_flags (epoll (epoll_tryToClose w)) AND EF_CLOSED \<noteq> 0
    \<and> (epoll_flags (epoll w) AND EF_SCHEDULED = 0 \<longrightarrow>
          host_closes (epoll_tryToClose w) = host_closes w + 1
          \<and> epoll_listeners (epoll_tryToClose w) = {}
          \<and> tasks (epoll_tryToClose w) = tasks w)
    \<and> (epoll_flags (epoll w) AND EF_SCHEDULED \<noteq> 0 \<longrightarrow>
          epoll_tryToClose w = w\<lparr>epoll := (epoll w)\<lparr>epoll_flags := epoll_flags (epoll w) OR EF_CLOSED\<rparr>\<rparr>)
    \<and> (epoll_flags (epoll w) AND EF_CLOSED \<noteq> 0 \<and> tasks w \<noteq> 0 \<longrightarrow>
          (\<exists>w'. step env w TaskRun = Some w' \<and> host_closes w' = 1 \<and> tasks w' = 0
                \<and> epoll_listeners w' = {} \<and> epoll_flags (epoll w') AND EF_NOTIFYING = 0))
    \<and> host_closes w \<le> 1
    \<and> (host_closes w = 1 \<longrightarrow> tasks w = 0 \<and> epoll_flags (epoll w) AND EF_SCHEDULED = 0)
    \<and> (epoll_flags (epoll w) AND EF_CLOSED \<noteq> 0 \<longrightarrow> (host_closes w = 1) = (tasks w = 0))
    \<and> (tasks w = 0) = (epoll_flags (epoll w) AND EF_SCHEDULED = 0)"
proof -
  have l: "lifecycle_inv w"
    by (rule run_lifecycle [OF world_new_lifecycle world_new_table_inv r])
  have t: "watch_table_inv w"
    by (rule run_table_inv [OF world_new_table_inv r])
  define w1 where "w1 = w\<lparr>epoll := (epoll w)\<lparr>epoll_flags := epoll_flags (epoll w) OR EF_CLOSED\<rparr>\<rparr>"
  have t1: "watch_table_inv w1" using t by (simp add: w1_def watch_table_inv_def)
  have l1: "epoll_listeners w1 \<subseteq> fst ` set (watching (epoll w1))"
    using l by (simp add: w1_def lifecycle_inv_def)
  have now: "epoll_flags (epoll w) AND EF_SCHEDULED = 0 \<longrightarrow>
          host_closes (epoll_tryToClose w) = host_closes w + 1
          \<and> epoll_listeners (epoll_tryToClose w) = {}
          \<and> tasks (epoll_tryToClose w) = tasks w"
    by (simp add: tryToClose_effect(3) w1_def [symmetric] close_lifecycle [OF t1 l1])
      (simp add: w1_def)
  have inv: "host_closes w \<le> 1
    \<and> (host_closes w = 1 \<longrightarrow> tasks w = 0 \<and> epoll_flags (epoll w) AND EF_SCHEDULED = 0)
    \<and> (epoll_flags (epoll w) AND EF_CLOSED \<noteq> 0 \<longrightarrow> (host_closes w = 1) = (tasks w = 0))
    \<and> (tasks w = 0) = (epoll_flags (epoll w) AND EF_SCHEDULED = 0)"
    using l by (auto simp add: lifecycle_inv_def split: if_splits)
  show ?thesis
    using now inv tryToClose_effect(1,2) [of w] pending_task_closes [OF l t, of env]
    by blast
qed

theorem close_finalizes_once_witness:
  "epoll_flags (epoll (epoll_tryToClose (ex_world_watching EPOLLIN))) AND EF_CLOSED \<noteq> 0
   \<and> tasks (ex_world_watching EPOLLIN) = 1
   \<and> host_closes (epoll_tryToClose (ex_world_watching EPOLLIN)) = 0
   \<and> (\<exists>w'. step ex_env (epoll_tryToClose (ex_world_watching EPOLLIN)) TaskRun = Some w'
          \<and> host_closes w' = 1 \<and> tasks w' = 0)"
proof -
  define acts where "acts = [(ex_env, Control EPOLL_CTL_ADD 7 (Some (ex_event EPOLLIN))), (ex_env, Close)]"
  have w: "ex_world_watching EPOLLIN =
      the (run ex_world [(ex_env, Control EPOLL_CTL_ADD 7 (Some (ex_event EPOLLIN)))])"
    by (simp add: ex_world_watching_def)
  have r1: "run (world_new 3 4 (\<lambda>d. ex_readable)) [(ex_env, Control EPOLL_CTL_ADD 7 (Some (ex_event EPOLLIN)))]
      = Some (ex_world_watching EPOLLIN)"
    by (simp add: eval_defs)
  have r2: "run (world_new 3 4 (\<lambda>d. ex_readable)) acts = Some (epoll_tryToClose (ex_world_watching EPOLLIN))"
    by (simp add: acts_def eval_defs)
  have s: "epoll_flags (epoll (ex_world_watching EPOLLIN)) AND EF_SCHEDULED \<noteq> 0"
    "tasks (ex_world_watching EPOLLIN) = 1" "host_closes (ex_world_watching EPOLLIN) = 0"
    by (simp_all add: eval_defs)
  have c: "epoll_flags (epoll (epoll_tryToClose (ex_world_watching EPOLLIN))) AND EF_CLOSED \<noteq> 0"
    "tasks (epoll_tryToClose (ex_world_watching EPOLLIN)) \<noteq> 0"
    "host_closes (epoll_tryToClose (ex_world_watching EPOLLIN)) = 0"
    by (simp_all add: eval_defs)
  from close_finalizes_once [OF r1, of ex_env] close_finalizes_once [OF r2, of ex_env] s c
  show ?thesis by blast
qed


text \<open>
  C9 as stated fails in its last part: a close from inside the continuation of the
  running notify task is finalized at once, before that notify task has completed
  (\<open>EF_NOTIFYING\<close> is still set, \<open>process_continue\<close> has not returned).
\<close>

theorem close_in_continuation_finalizes_before_notify_returns:
  "run ex_world [(ex_env, Control EPOLL_CTL_ADD 7 (Some (ex_event EPOLLIN))),
                 (ex_env, TaskRun), (ex_env, Close)] \<noteq> None
   \<and> host_closes (the (run ex_world [(ex_env, Control EPOLL_CTL_ADD 7 (Some (ex_event EPOLLIN))),
                 (ex_env, TaskRun)])) = 0
   \<and> host_closes (the (run ex_world [(ex_env, Control EPOLL_CTL_ADD 7 (Some (ex_event EPOLLIN))),
                 (ex_env, TaskRun), (ex_env, Close)])) = 1
   \<and> epoll_flags (epoll (the (run ex_world [(ex_env, Control EPOLL_CTL_ADD 7 (Some (ex_event EPOLLIN))),
                 (ex_env, TaskRun), (ex_env, Close)]))) AND EF_NOTIFYING \<noteq> 0"
  by (simp add: eval_defs)

section \<open>Runs that leave a watch undisturbed\<close>

lemma close_table: "watching (epoll (epoll_close w)) = watching (epoll w)"
  "descriptor_status (epoll_close w) = descriptor_status w"
  by (simp_all add: epoll_close_def epoll_clearWatchListeners_def Let_def)

lemma tryNotify_enter_status:
  assumes "epoll_tryNotify_enter env w = Some (w', b)"
  shows "descriptor_status w' = descriptor_status w"
proof (cases "epoll_flags (epoll w) AND EF_CLOSED \<noteq> 0 \<or> \<not> process_isRunning env")
  case True
  from tryNotify_enter_closing(1) [OF assms True] show ?thesis by (simp add: close_table)
next
  case False
  then show ?thesis using tryNotify_enter_fields(6) [OF assms] by simp
qed

lemma step_undisturbed:
  assumes refresh: "\<And>g x. G g \<Longrightarrow> P h x \<Longrightarrow> P h (epollwatch_updateStatus g x)"
    and report: "\<And>x. P h x \<Longrightarrow> P h (fst (epoll_getEvents_report x))"
    and other: "\<And>k x. k \<noteq> h \<Longrightarrow> P k x"
    and G: "G (descriptor_status w)"
    and G': "\<And>d s. a = StatusChanged d s \<Longrightarrow> G ((descriptor_status w)(d := s))"
    and P: "table_all P w" and nr: "\<not> rearms h w a" and st: "step env w a = Some w'"
  shows "table_all P w' \<and> G (descriptor_status w')"
proof -
  have refresh': "P k (epollwatch_updateStatus g x)" if "G g" "P k x" for g k x
    using that refresh [of g x] other [of k] by (cases "k = h") auto
  have report': "P k (fst (epoll_getEvents_report x))" if "P k x" for k x
    using that report [of x] other [of k] by (cases "k = h") auto
  have checked: "table_all P (epoll_check env v) \<and> G (descriptor_status (epoll_check env v))"
    if "table_all P v" "G (descriptor_status v)" for v
    using check_table_all [of P v env] refresh' [OF that(2)] that by (simp add: check_fields)
  show ?thesis
  proof (cases a)
    case (Control operation d ev)
    with st obtain r where c: "epoll_control env w operation d ev = Some (w', r)"
      by (auto split: if_splits)
    consider (add) e where "operation = EPOLL_CTL_ADD" "g_hash_table_lookup (watching (epoll w)) d = None"
        "ev = Some e"
      | (mod) x e where "operation = EPOLL_CTL_MOD" "g_hash_table_lookup (watching (epoll w)) d = Some x"
        "ev = Some e" "flags x AND EWF_WATCHING \<noteq> 0"
      | (del) x where "operation = EPOLL_CTL_DEL" "g_hash_table_lookup (watching (epoll w)) d = Some x"
      | (same) "w' = w"
      using c
      by (auto simp add: epoll_control_def Let_def EPOLL_CTL_ADD_def EPOLL_CTL_MOD_def
          EPOLL_CTL_DEL_def split: option.splits if_splits)
    then show ?thesis
    proof cases
      case add
      define v where "v = \<lparr>descriptor = d, event = e, flags = 0 OR EWF_WATCHING, referenceCount = 1\<rparr>"
      define w2 where "w2 = w\<lparr>epoll := (epoll w)\<lparr>watching :=
        g_hash_table_replace (watching (epoll w)) d v\<rparr>, epoll_listeners := insert d (epoll_listeners w)\<rparr>"
      have w': "w' = epoll_check env w2"
        using c add by (simp add: epoll_control_def Let_def w2_def v_def)
      have dh: "d \<noteq> h" using nr Control add by auto
      have "table_all P w2"
        using P add other [OF dh]
        by (auto simp add: table_all_def w2_def lookup_None_keys replace_keys)
      moreover have "G (descriptor_status w2)" using G by (simp add: w2_def)
      ultimately show ?thesis unfolding w' by (rule checked)
    next
      case mod
      define v where "v = x\<lparr>event := e, flags := (flags x AND NOT EWF_EDGETRIGGER_REPORTED)
        AND NOT EWF_ONESHOT_REPORTED\<rparr>"
      define w1 where "w1 = w\<lparr>epoll := (epoll w)\<lparr>watching := watch_store (watching (epoll w)) d v\<rparr>\<rparr>"
      have w': "w' = epoll_check env w1"
        using c mod
        by (simp add: epoll_control_def Let_def w1_def v_def EPOLL_CTL_ADD_def EPOLL_CTL_MOD_def)
      have dh: "d \<noteq> h" using nr Control mod by auto
      have "table_all P w1"
        using P other [OF dh]
        by (auto simp add: table_all_def w1_def dest!: store_set)
      moreover have "G (descriptor_status w1)" using G by (simp add: w1_def)
      ultimately show ?thesis unfolding w' by (rule checked)
    next
      case del
      have "watching (epoll w') = g_hash_table_remove (watching (epoll w)) (descriptor x)"
        "descriptor_status w' = descriptor_status w"
        using c del
        by (auto simp add: epoll_control_def Let_def EPOLL_CTL_ADD_def EPOLL_CTL_MOD_def
            EPOLL_CTL_DEL_def)
      then show ?thesis
        using P G remove_subset [of "watching (epoll w)" "descriptor x"]
        by (auto simp add: table_all_def)
    next
      case same
      then show ?thesis using P G by simp
    qed
  next
    case (GetEvents n)
    with st obtain reported arr cnt where g: "epoll_getEvents env w n = Some (w', reported, arr, cnt)"
      by (auto split: if_splits)
    from getEvents_world [OF g] obtain w1 where w1: "w' = epoll_check env w1"
      "watching (epoll w1) = fst (epoll_getEvents_loop (descriptor_status w) n 0 (watching (epoll w)))"
      "descriptor_status w1 = descriptor_status w"
      by blast
    have "\<forall>(k, x) \<in> set (fst (epoll_getEvents_loop (descriptor_status w) n 0 (watching (epoll w)))). P k x"
      by (rule getEvents_loop_all [of P, OF refresh' [OF G] report'])
        (use P in \<open>simp_all add: table_all_def\<close>)
    then have "table_all P w1" by (simp add: table_all_def w1(2))
    moreover have "G (descriptor_status w1)" using G by (simp add: w1(3))
    ultimately show ?thesis unfolding w1(1) by (rule checked)
  next
    case Close
    with st have "watching (epoll w') = watching (epoll w)" "descriptor_status w' = descriptor_status w"
      by (auto simp add: epoll_tryToClose_def epoll_close_def epoll_clearWatchListeners_def
          Let_def split: if_splits)
    then show ?thesis using P G by (simp add: table_all_def)
  next
    case (StatusChanged d s)
    define w1 where "w1 = w\<lparr>descriptor_status := (descriptor_status w)(d := s)\<rparr>"
    have p1: "table_all P w1" using P by (simp add: w1_def table_all_def)
    have g1: "G (descriptor_status w1)" using G' [OF StatusChanged] by (simp add: w1_def)
    from st StatusChanged have "w' = w1 \<or> w' = epoll_check env w1"
      by (auto simp add: Let_def w1_def epoll_descriptorStatusChanged_def
          split: if_splits option.splits)
    then show ?thesis using p1 g1 checked [OF p1 g1] by auto
  next
    case TaskRun
    with st obtain b where e: "epoll_tryNotify_enter env (w\<lparr>tasks := tasks w - 1\<rparr>) = Some (w', b)"
      by (auto split: if_splits)
    have s: "descriptor_status w' = descriptor_status w"
      using tryNotify_enter_status [OF e] by simp
    have "\<forall>(k, x) \<in> set (fst (epoll_tryNotify_loop (descriptor_status w) False (watching (epoll w)))). P k x"
      by (rule tryNotify_loop_all [of P, OF refresh' [OF G]])
        (use P in \<open>simp_all add: table_all_def\<close>)
    with tryNotify_enter_table [OF e] P have "table_all P w'"
      by (auto simp add: table_all_def)
    with s G show ?thesis by simp
  next
    case ContinueReturn
    with st have w': "w' = epoll_check env
      (w\<lparr>epoll := (epoll w)\<lparr>epoll_flags := epoll_flags (epoll w) AND NOT EF_NOTIFYING\<rparr>\<rparr>)"
      by (auto simp add: epoll_tryNotify_return_def split: if_splits)
    show ?thesis unfolding w'
      by (rule checked) (use P G in \<open>simp_all add: table_all_def\<close>)
  qed
qed

lemma run_undisturbed:
  assumes refresh: "\<And>g x. G g \<Longrightarrow> P h x \<Longrightarrow> P h (epollwatch_updateStatus g x)"
    and report: "\<And>x. P h x \<Longrightarrow> P h (fst (epoll_getEvents_report x))"
    and other: "\<And>k x. k \<noteq> h \<Longrightarrow> P k x"
    and keep: "\<And>g env d s. G g \<Longrightarrow> (env, StatusChanged d s) \<in> set acts \<Longrightarrow> G (g(d := s))"
  shows "G (descriptor_status w) \<Longrightarrow> table_all P w \<Longrightarrow> undisturbed h w acts
    \<Longrightarrow> run w acts = Some w' \<Longrightarrow> table_all P w' \<and> G (descriptor_status w')"
  using keep
proof (induction acts arbitrary: w)
  case Nil
  then show ?case by simp
next
  case (Cons p acts)
  obtain env a where p: "p = (env, a)" by (cases p)
  from Cons.prems(4) p obtain w1 where s: "step env w a = Some w1" and r: "run w1 acts = Some w'"
    by (auto split: option.splits)
  from Cons.prems(3) p s have nr: "\<not> rearms h w a" and u: "undisturbed h w1 acts"
    by auto
  have G': "G ((descriptor_status w)(d := s))" if "a = StatusChanged d s" for d s
  proof -
    from that p have "(env, StatusChanged d s) \<in> set (p # acts)" by simp
    from Cons.prems(5) [OF Cons.prems(1) this] show ?thesis .
  qed
  from step_undisturbed [of G P h, OF refresh report other Cons.prems(1) G' Cons.prems(2) nr s]
  have i: "table_all P w1" "G (descriptor_status w1)" by auto
  have keep': "G (g(d := s))" if "G g" "(env, StatusChanged d s) \<in> set acts" for g env d s
  proof -
    from that(2) have "(env, StatusChanged d s) \<in> set (p # acts)" by simp
    from Cons.prems(5) [OF that(1) this] show ?thesis .
  qed
  from Cons.IH [OF i(2) i(1) u r keep'] show ?case .
qed

lemma reported_entry:
  "(h, ev) \<in> set (snd (epoll_getEvents_loop g n i t)) \<Longrightarrow>
     \<exists>x. (h, x) \<in> set t \<and> snd (epollwatch_isReady g x)
        \<and> ev = snd (epoll_getEvents_report (epollwatch_updateStatus g x))"
proof (induction t arbitrary: i)
  case Nil
  then show ?case by simp
next
  case (Cons a t)
  obtain k x where a: "a = (k, x)" by (cases a)
  show ?case
    using Cons.prems Cons.IH [of i] Cons.IH [of "i + 1"]
    by (auto simp add: a Let_def split_beta isReady_fst split: if_splits)
qed

lemma reported_table:
  "distinct (map fst t) \<Longrightarrow> (h, ev) \<in> set (snd (epoll_getEvents_loop g n i t)) \<Longrightarrow>
   (h, y) \<in> set (fst (epoll_getEvents_loop g n i t)) \<Longrightarrow>
     \<exists>x. (h, x) \<in> set t \<and> y = fst (epoll_getEvents_report (epollwatch_updateStatus g x))"
proof (induction t arbitrary: i)
  case Nil
  then show ?case by simp
next
  case (Cons a t)
  obtain k x where a: "a = (k, x)" by (cases a)
  have d: "distinct (map fst t)" and kt: "k \<notin> fst ` set t" using Cons.prems(1) a by auto
  have keys: "fst ` set (fst (epoll_getEvents_loop g n j t)) = fst ` set t" for j
    using getEvents_loop_keys [of g n j t] by (metis set_map)
  have nk: "(k, z) \<notin> set (fst (epoll_getEvents_loop g n j t))" for z j
    using kt keys [of j] by (metis fst_conv image_eqI)
  have nr: "(k, e) \<notin> set (snd (epoll_getEvents_loop g n j t))" for e j
    using reported_entry [of k e g n j t] kt by (metis fst_conv image_eqI)
  show ?case
  proof (cases "h = k")
    case True
    with Cons.prems(2,3) nk nr show ?thesis
      by (auto simp add: a Let_def split_beta isReady_fst split: if_splits)
  next
    case False
    with Cons.prems(2,3) Cons.IH [OF d, of i] Cons.IH [OF d, of "i + 1"] show ?thesis
      by (auto simp add: a Let_def split_beta isReady_fst split: if_splits)
  qed
qed

lemma reported_established:
  assumes inv: "watch_table_inv w0"
    and first: "epoll_getEvents env w0 n = Some (w1, reported, arr, cnt)"
    and rep: "(h, ev) \<in> set reported"
    and x: "g_hash_table_lookup (watching (epoll w0)) h = Some x"
    and init: "P h (fst (epoll_getEvents_report (epollwatch_updateStatus (descriptor_status w0) x)))"
    and refresh: "\<And>y. P h y \<Longrightarrow> P h (epollwatch_updateStatus (descriptor_status w0) y)"
    and other: "\<And>k y. k \<noteq> h \<Longrightarrow> P k y"
  shows "table_all P w1 \<and> descriptor_status w1 = descriptor_status w0"
proof -
  define t where "t = watching (epoll w0)"
  define g where "g = descriptor_status w0"
  from getEvents_world [OF first] obtain v where v: "w1 = epoll_check env v"
    "watching (epoll v) = fst (epoll_getEvents_loop g n 0 t)"
    "reported = snd (epoll_getEvents_loop g n 0 t)"
    "descriptor_status v = g"
    unfolding t_def g_def by blast
  have d: "distinct (map fst t)" using inv by (simp add: watch_table_inv_def t_def)
  have only: "z = x" if "(h, z) \<in> set t" for z
    using that x d by (simp add: g_hash_table_lookup_def t_def)
  have "P k y" if "(k, y) \<in> set (fst (epoll_getEvents_loop g n 0 t))" for k y
  proof (cases "k = h")
    case True
    from reported_table [OF d, of h ev g n 0 y] rep that True v(3) only
    have "y = fst (epoll_getEvents_report (epollwatch_updateStatus g x))" by auto
    with init True show ?thesis by (simp add: g_def)
  next
    case False
    then show ?thesis by (rule other)
  qed
  then have pv: "table_all P v" by (auto simp add: table_all_def v(2))
  have "table_all P (epoll_check env v)"
  proof (rule check_table_all [OF _ pv])
    fix k y assume "P k y"
    then show "P k (epollwatch_updateStatus (descriptor_status v) y)"
      using refresh [of y] other [of k] by (cases "k = h") (auto simp add: v(4) g_def)
  qed
  then show ?thesis by (simp add: v(1) check_fields v(4) g_def)
qed

section \<open>One-shot and edge-triggered reporting\<close>

lemma oneshot_reported_not_ready:
  "events (event x) AND EPOLLONESHOT \<noteq> 0 \<Longrightarrow> flags x AND EWF_ONESHOT_REPORTED \<noteq> 0
    \<Longrightarrow> \<not> snd (epollwatch_isReady g x)"
  by (simp add: epollwatch_isReady_def Let_def EWF_test EPOLL_test updateStatus_bits)

text \<open>
  C3. Let a collect report the watch of handle \<open>h\<close>, subscribed with
  \<open>EPOLLONESHOT\<close>. Then \<open>EWF_ONESHOT_REPORTED\<close> is set on that watch, and after any run
  of actions (control operations, collects, closes, status changes, notify tasks) in
  which no MOD is applied to the watch and no new watch is created for \<open>h\<close>, a collect
  does not report \<open>h\<close>.
\<close>

theorem one_shot_reported_once:
  assumes inv: "watch_table_inv w0"
    and first: "epoll_getEvents env1 w0 n1 = Some (w1, reported1, eventArray1, nEvents1)"
    and rep: "(h, ev1) \<in> set reported1"
    and x: "g_hash_table_lookup (watching (epoll w0)) h = Some x"
    and oneshot: "events (event x) AND EPOLLONESHOT \<noteq> 0"
    and between: "run w1 acts = Some w2"
    and und: "undisturbed h w1 acts"
    and second: "epoll_getEvents env2 w2 n2 = Some (w3, reported2, eventArray2, nEvents2)"
  shows "(\<forall>y. (h, y) \<in> set (watching (epoll w1)) \<longrightarrow> flags y AND EWF_ONESHOT_REPORTED \<noteq> 0)
       \<and> h \<notin> fst ` set reported2"
proof -
  define P where "P = (\<lambda>k (y::EpollWatch). k = h \<longrightarrow>
      events (event y) AND EPOLLONESHOT \<noteq> 0 \<and> flags y AND EWF_ONESHOT_REPORTED \<noteq> 0)"
  have refresh: "P h (epollwatch_updateStatus g y)" if "P h y" for g y
    using that by (simp add: P_def EWF_test updateStatus_bits updateStatus_fields)
  have report: "P h (fst (epoll_getEvents_report y))" if "P h y" for y
    using that by (simp add: P_def EWF_test report_flags report_fields)
  have other: "P k y" if "k \<noteq> h" for k y
    using that by (simp add: P_def)
  have init: "P h (fst (epoll_getEvents_report (epollwatch_updateStatus (descriptor_status w0) x)))"
    using oneshot
    by (simp add: P_def EWF_test EPOLL_test report_flags report_fields updateStatus_bits
        updateStatus_fields)
  from reported_established [of w0 env1 n1 w1 reported1 eventArray1 nEvents1 h ev1 x P,
      OF inv first rep x init refresh other]
  have p1: "table_all P w1" by simp
  from run_undisturbed [of "\<lambda>g. True" P h acts w1 w2, OF _ report other _ _ p1 und between] refresh
  have p2: "table_all P w2" by simp
  from getEvents_world [OF second]
  have r2: "reported2 = snd (epoll_getEvents_loop (descriptor_status w2) n2 0 (watching (epoll w2)))"
    by blast
  have "h \<notin> fst ` set reported2"
  proof
    assume "h \<in> fst ` set reported2"
    then obtain ev2 where "(h, ev2) \<in> set reported2" by auto
    from reported_entry [OF this [unfolded r2]] obtain y where
      y: "(h, y) \<in> set (watching (epoll w2))" "snd (epollwatch_isReady (descriptor_status w2) y)"
      by blast
    from p2 y(1) have "events (event y) AND EPOLLONESHOT \<noteq> 0" "flags y AND EWF_ONESHOT_REPORTED \<noteq> 0"
      by (auto simp add: table_all_def P_def)
    from oneshot_reported_not_ready [OF this] y(2) show False by simp
  qed
  moreover have "\<forall>y. (h, y) \<in> set (watching (epoll w1)) \<longrightarrow> flags y AND EWF_ONESHOT_REPORTED \<noteq> 0"
    using p1 by (auto simp add: table_all_def P_def)
  ultimately show ?thesis by simp
qed

theorem one_shot_reported_once_witness:
  "fst (snd (the (epoll_getEvents ex_env (ex_world_watching (EPOLLIN OR EPOLLONESHOT)) 4)))
     = [(7, \<lparr>events = EPOLLIN, data = 7\<rparr>)]
   \<and> 7 \<notin> fst ` set (fst (snd (the (epoll_getEvents ex_env
        (the (run (fst (the (epoll_getEvents ex_env (ex_world_watching (EPOLLIN OR EPOLLONESHOT)) 4)))
           [(ex_env, StatusChanged 7 ex_idle), (ex_env, StatusChanged 7 ex_readable)])) 4))))"
proof -
  define w0 where "w0 = ex_world_watching (EPOLLIN OR EPOLLONESHOT)"
  define r1 where "r1 = the (epoll_getEvents ex_env w0 4)"
  define acts where "acts = [(ex_env, StatusChanged 7 ex_idle), (ex_env, StatusChanged 7 ex_readable)]"
  define w2 where "w2 = the (run (fst r1) acts)"
  define r2 where "r2 = the (epoll_getEvents ex_env w2 4)"
  have w0: "run (world_new 3 4 (\<lambda>d. ex_readable))
      [(ex_env, Control EPOLL_CTL_ADD 7 (Some (ex_event (EPOLLIN OR EPOLLONESHOT))))] = Some w0"
    unfolding w0_def by (simp add: eval_defs)
  have inv: "watch_table_inv w0"
    by (rule run_table_inv [OF world_new_table_inv w0])
  have first: "epoll_getEvents ex_env w0 4
      = Some (fst r1, fst (snd r1), fst (snd (snd r1)), snd (snd (snd r1)))"
    unfolding r1_def w0_def by (simp add: eval_defs)
  have rep: "fst (snd r1) = [(7, \<lparr>events = EPOLLIN, data = 7\<rparr>)]"
    unfolding r1_def w0_def by (simp add: eval_defs EPOLLIN_def)
  obtain x where x: "g_hash_table_lookup (watching (epoll w0)) 7 = Some x"
    "events (event x) AND EPOLLONESHOT \<noteq> 0"
    unfolding w0_def by (simp add: eval_defs)
  have between: "run (fst r1) acts = Some w2"
    unfolding w2_def r1_def w0_def acts_def by (simp add: eval_defs)
  have und: "undisturbed 7 (fst r1) acts"
    unfolding r1_def w0_def acts_def by (simp add: eval_defs)
  have second: "epoll_getEvents ex_env w2 4
      = Some (fst r2, fst (snd r2), fst (snd (snd r2)), snd (snd (snd r2)))"
    unfolding r2_def w2_def r1_def w0_def acts_def by (simp add: eval_defs)
  have rep1: "(7, \<lparr>events = EPOLLIN, data = 7\<rparr>) \<in> set (fst (snd r1))"
    by (simp add: rep)
  from one_shot_reported_once [OF inv first rep1 x between und second]
  have "7 \<notin> fst ` set (fst (snd r2))" by simp
  with rep show ?thesis
    by (simp add: r2_def w2_def r1_def w0_def acts_def)
qed


lemma keeps_readable_mem:
  "keeps_readable h b acts \<Longrightarrow> (env, StatusChanged d s) \<in> set acts \<Longrightarrow> d = h \<Longrightarrow> DS_READABLE s = b"
  by (induction h b acts rule: keeps_readable.induct) auto

lemma keeps_writable_mem:
  "keeps_writable h b acts \<Longrightarrow> (env, StatusChanged d s) \<in> set acts \<Longrightarrow> d = h \<Longrightarrow> DS_WRITABLE s = b"
  by (induction h b acts rule: keeps_writable.induct) auto

lemma ready_has_direction:
  assumes "snd (epollwatch_isReady g x)"
  shows "events (snd (epoll_getEvents_report (epollwatch_updateStatus g x))) AND EPOLLIN \<noteq> 0
       \<or> events (snd (epoll_getEvents_report (epollwatch_updateStatus g x))) AND EPOLLOUT \<noteq> 0"
  using assms
  by (auto simp add: epollwatch_isReady_def Let_def EWF_test EPOLL_test report_event
      split: if_splits)

lemma edge_ready_needs_change:
  assumes "snd (epollwatch_isReady g x)"
    and "events (event x) AND EPOLLET \<noteq> 0" and "flags x AND EWF_EDGETRIGGER_REPORTED \<noteq> 0"
  shows "(events (snd (epoll_getEvents_report (epollwatch_updateStatus g x))) AND EPOLLIN \<noteq> 0
          \<and> (flags x AND EWF_READCHANGED \<noteq> 0
              \<or> DS_READABLE (g (descriptor x)) \<noteq> (flags x AND EWF_READABLE \<noteq> 0)))
       \<or> (events (snd (epoll_getEvents_report (epollwatch_updateStatus g x))) AND EPOLLOUT \<noteq> 0
          \<and> (flags x AND EWF_WRITECHANGED \<noteq> 0
              \<or> DS_WRITABLE (g (descriptor x)) \<noteq> (flags x AND EWF_WRITEABLE \<noteq> 0)))"
  using assms
  by (auto simp add: epollwatch_isReady_def Let_def EWF_test EPOLL_test report_event
      updateStatus_bits split: if_splits)


lemma edge_reported_kept:
  fixes h :: int and sel :: "DescriptorStatus \<Rightarrow> bool" and cached changed :: "32 word"
  assumes bits: "\<And>g y. (flags (epollwatch_updateStatus g y) AND cached \<noteq> 0) = sel (g (descriptor y))"
      "\<And>g y. (flags (epollwatch_updateStatus g y) AND changed \<noteq> 0) =
          (flags y AND changed \<noteq> 0 \<or> sel (g (descriptor y)) \<noteq> (flags y AND cached \<noteq> 0))"
      "\<And>y. (flags (fst (epoll_getEvents_report y)) AND cached \<noteq> 0) = (flags y AND cached \<noteq> 0)"
      "\<And>y. flags (fst (epoll_getEvents_report y)) AND changed = 0"
    and inv: "watch_table_inv w0"
    and first: "epoll_getEvents env1 w0 n1 = Some (w1, reported1, eventArray1, nEvents1)"
    and rep: "(h, ev1) \<in> set reported1"
    and x: "g_hash_table_lookup (watching (epoll w0)) h = Some x"
    and et: "events (event x) AND EPOLLET \<noteq> 0"
    and between: "run w1 acts = Some w2"
    and und: "undisturbed h w1 acts"
    and keep: "\<And>env d s. (env, StatusChanged d s) \<in> set acts \<Longrightarrow> d = h
        \<Longrightarrow> sel s = sel (descriptor_status w0 h)"
    and y: "(h, y) \<in> set (watching (epoll w2))"
  shows "descriptor y = h \<and> events (event y) AND EPOLLET \<noteq> 0
       \<and> flags y AND EWF_EDGETRIGGER_REPORTED \<noteq> 0
       \<and> flags y AND changed = 0
       \<and> sel (descriptor_status w2 (descriptor y)) = (flags y AND cached \<noteq> 0)"
proof -
  define r0 where "r0 = sel (descriptor_status w0 h)"
  define G where "G = (\<lambda>g::int \<Rightarrow> DescriptorStatus. sel (g h) = r0)"
  define P where "P = (\<lambda>k (y::EpollWatch). k = h \<longrightarrow>
      descriptor y = h \<and> events (event y) AND EPOLLET \<noteq> 0
      \<and> flags y AND EWF_EDGETRIGGER_REPORTED \<noteq> 0
      \<and> flags y AND changed = 0 \<and> (flags y AND cached \<noteq> 0) = r0)"
  have refresh: "P h (epollwatch_updateStatus g y)" if "G g" "P h y" for g y
  proof -
    from that have d: "descriptor y = h" and c: "flags y AND changed = 0"
      "(flags y AND cached \<noteq> 0) = r0" "sel (g h) = r0"
      and e: "events (event y) AND EPOLLET \<noteq> 0" "flags y AND EWF_EDGETRIGGER_REPORTED \<noteq> 0"
      by (simp_all add: P_def G_def)
    have "flags (epollwatch_updateStatus g y) AND changed = 0"
      using bits(2) [of g y] d c by auto
    moreover have "(flags (epollwatch_updateStatus g y) AND cached \<noteq> 0) = r0"
      using bits(1) [of g y] d c by simp
    ultimately show ?thesis
      using d e by (simp add: P_def EWF_test updateStatus_bits updateStatus_fields)
  qed
  have report: "P h (fst (epoll_getEvents_report y))" if "P h y" for y
    using that bits(3) [of y] bits(4) [of y]
    by (simp add: P_def EWF_test report_flags report_fields)
  have other: "P k y" if "k \<noteq> h" for k y
    using that by (simp add: P_def)
  have dx: "descriptor x = h"
    using lookup_in_table [OF x] inv by (auto simp add: watch_table_inv_def)
  have g0: "G (descriptor_status w0)" by (simp add: G_def r0_def)
  have init: "P h (fst (epoll_getEvents_report (epollwatch_updateStatus (descriptor_status w0) x)))"
    using et dx bits(4) [of "epollwatch_updateStatus (descriptor_status w0) x"]
      bits(3) [of "epollwatch_updateStatus (descriptor_status w0) x"]
      bits(1) [of "descriptor_status w0" x]
    by (simp add: P_def r0_def EWF_test EPOLL_test report_flags report_fields updateStatus_bits
        updateStatus_fields)
  from reported_established [of w0 env1 n1 w1 reported1 eventArray1 nEvents1 h ev1 x P,
      OF inv first rep x init refresh [OF g0] other]
  have p1: "table_all P w1" "G (descriptor_status w1)" using g0 by simp_all
  have keepG: "G (g(d := s))" if "G g" "(env, StatusChanged d s) \<in> set acts" for g env d s
    using that keep [OF that(2)] by (auto simp add: G_def r0_def)
  from run_undisturbed [of G P h acts w1 w2, OF refresh report other keepG p1(2) p1(1) und between]
  have p2: "table_all P w2" "G (descriptor_status w2)" by simp_all
  from p2(1) y have "P h y" by (auto simp add: table_all_def)
  with p2(2) show ?thesis by (simp add: P_def G_def)
qed

text \<open>
  C2. Let a collect report the watch of handle \<open>h\<close>, subscribed with \<open>EPOLLET\<close>, and
  let a later collect report it again, after a run of actions in which no MOD is
  applied to the watch and no new watch is created for \<open>h\<close>. Then the second event
  carries \<open>EPOLLIN\<close> and the readable bit of the descriptor was changed by a status
  change of the run, or it carries \<open>EPOLLOUT\<close> and the writable bit was changed.
\<close>

theorem edge_triggered_reported_again_only_after_change:
  assumes inv: "watch_table_inv w0"
    and first: "epoll_getEvents env1 w0 n1 = Some (w1, reported1, eventArray1, nEvents1)"
    and rep: "(h, ev1) \<in> set reported1"
    and x: "g_hash_table_lookup (watching (epoll w0)) h = Some x"
    and et: "events (event x) AND EPOLLET \<noteq> 0"
    and between: "run w1 acts = Some w2"
    and und: "undisturbed h w1 acts"
    and second: "epoll_getEvents env2 w2 n2 = Some (w3, reported2, eventArray2, nEvents2)"
    and again: "(h, ev2) \<in> set reported2"
  shows "(events ev2 AND EPOLLIN \<noteq> 0
          \<and> \<not> keeps_readable h (DS_READABLE (descriptor_status w0 h)) acts)
       \<or> (events ev2 AND EPOLLOUT \<noteq> 0
          \<and> \<not> keeps_writable h (DS_WRITABLE (descriptor_status w0 h)) acts)"
proof -
  from getEvents_world [OF second]
  have r2: "reported2 = snd (epoll_getEvents_loop (descriptor_status w2) n2 0 (watching (epoll w2)))"
    by blast
  from reported_entry [OF again [unfolded r2]] obtain y where
    y: "(h, y) \<in> set (watching (epoll w2))" "snd (epollwatch_isReady (descriptor_status w2) y)"
    "ev2 = snd (epoll_getEvents_report (epollwatch_updateStatus (descriptor_status w2) y))"
    by blast
  have dir: "events ev2 AND EPOLLIN \<noteq> 0 \<or> events ev2 AND EPOLLOUT \<noteq> 0"
    using ready_has_direction [OF y(2)] y(3) by simp
  have rd: "descriptor y = h \<and> events (event y) AND EPOLLET \<noteq> 0
       \<and> flags y AND EWF_EDGETRIGGER_REPORTED \<noteq> 0
       \<and> flags y AND EWF_READCHANGED = 0
       \<and> DS_READABLE (descriptor_status w2 (descriptor y)) = (flags y AND EWF_READABLE \<noteq> 0)"
    if k: "keeps_readable h (DS_READABLE (descriptor_status w0 h)) acts"
    by (rule edge_reported_kept [of EWF_READABLE DS_READABLE EWF_READCHANGED, OF _ _ _ _
          inv first rep x et between und _ y(1)])
      (use keeps_readable_mem [OF k] in
        \<open>auto simp add: EWF_test updateStatus_bits report_flags\<close>)
  have wr: "descriptor y = h \<and> events (event y) AND EPOLLET \<noteq> 0
       \<and> flags y AND EWF_EDGETRIGGER_REPORTED \<noteq> 0
       \<and> flags y AND EWF_WRITECHANGED = 0
       \<and> DS_WRITABLE (descriptor_status w2 (descriptor y)) = (flags y AND EWF_WRITEABLE \<noteq> 0)"
    if k: "keeps_writable h (DS_WRITABLE (descriptor_status w0 h)) acts"
    by (rule edge_reported_kept [of EWF_WRITEABLE DS_WRITABLE EWF_WRITECHANGED, OF _ _ _ _
          inv first rep x et between und _ y(1)])
      (use keeps_writable_mem [OF k] in
        \<open>auto simp add: EWF_test updateStatus_bits report_flags\<close>)
  show ?thesis
  proof (cases "keeps_readable h (DS_READABLE (descriptor_status w0 h)) acts")
    case True
    note r = rd [OF True]
    from edge_ready_needs_change [OF y(2)] r y(3)
    have out: "events ev2 AND EPOLLOUT \<noteq> 0"
      and ch: "flags y AND EWF_WRITECHANGED \<noteq> 0
        \<or> DS_WRITABLE (descriptor_status w2 (descriptor y)) \<noteq> (flags y AND EWF_WRITEABLE \<noteq> 0)"
      by auto
    have "\<not> keeps_writable h (DS_WRITABLE (descriptor_status w0 h)) acts"
    proof
      assume "keeps_writable h (DS_WRITABLE (descriptor_status w0 h)) acts"
      from wr [OF this] ch show False by auto
    qed
    with out show ?thesis by simp
  next
    case False
    show ?thesis
    proof (cases "keeps_writable h (DS_WRITABLE (descriptor_status w0 h)) acts")
      case True
      note q = wr [OF True]
      from edge_ready_needs_change [OF y(2)] q y(3)
      have "events ev2 AND EPOLLIN \<noteq> 0" by auto
      with False show ?thesis by simp
    next
      case nw: False
      with False dir show ?thesis by auto
    qed
  qed
qed


theorem edge_triggered_reported_again_only_after_change_witness:
  "(7, \<lparr>events = EPOLLIN OR EPOLLET, data = 7\<rparr>)
     \<in> set (fst (snd (the (epoll_getEvents ex_env
        (the (run (fst (the (epoll_getEvents ex_env (ex_world_watching (EPOLLIN OR EPOLLET)) 4)))
           [(ex_env, StatusChanged 7 ex_idle), (ex_env, StatusChanged 7 ex_readable)])) 4))))
   \<and> \<not> keeps_readable 7 (DS_READABLE (descriptor_status (ex_world_watching (EPOLLIN OR EPOLLET)) 7))
        [(ex_env, StatusChanged 7 ex_idle), (ex_env, StatusChanged 7 ex_readable)]"
proof -
  define w0 where "w0 = ex_world_watching (EPOLLIN OR EPOLLET)"
  define r1 where "r1 = the (epoll_getEvents ex_env w0 4)"
  define acts where "acts = [(ex_env, StatusChanged 7 ex_idle), (ex_env, StatusChanged 7 ex_readable)]"
  define w2 where "w2 = the (run (fst r1) acts)"
  define r2 where "r2 = the (epoll_getEvents ex_env w2 4)"
  define ev where "ev = \<lparr>events = EPOLLIN OR EPOLLET, data = 7\<rparr>"
  have w0: "run (world_new 3 4 (\<lambda>d. ex_readable))
      [(ex_env, Control EPOLL_CTL_ADD 7 (Some (ex_event (EPOLLIN OR EPOLLET))))] = Some w0"
    unfolding w0_def by (simp add: eval_defs)
  have inv: "watch_table_inv w0"
    by (rule run_table_inv [OF world_new_table_inv w0])
  have first: "epoll_getEvents ex_env w0 4
      = Some (fst r1, fst (snd r1), fst (snd (snd r1)), snd (snd (snd r1)))"
    unfolding r1_def w0_def by (simp add: eval_defs)
  have rep1: "(7, ev) \<in> set (fst (snd r1))"
    unfolding r1_def w0_def ev_def by (simp add: eval_defs)
  obtain x where x: "g_hash_table_lookup (watching (epoll w0)) 7 = Some x"
    "events (event x) AND EPOLLET \<noteq> 0"
    unfolding w0_def by (simp add: eval_defs)
  have between: "run (fst r1) acts = Some w2"
    unfolding w2_def r1_def w0_def acts_def by (simp add: eval_defs)
  have und: "undisturbed 7 (fst r1) acts"
    unfolding r1_def w0_def acts_def by (simp add: eval_defs)
  have second: "epoll_getEvents ex_env w2 4
      = Some (fst r2, fst (snd r2), fst (snd (snd r2)), snd (snd (snd r2)))"
    unfolding r2_def w2_def r1_def w0_def acts_def by (simp add: eval_defs)
  have again: "(7, ev) \<in> set (fst (snd r2))"
    unfolding r2_def w2_def r1_def w0_def acts_def ev_def by (simp add: eval_defs)
  have no_out: "events ev AND EPOLLOUT = 0"
    by (simp add: ev_def flag_bits)
  from edge_triggered_reported_again_only_after_change
    [OF inv first rep1 x between und second again] no_out
  have "\<not> keeps_readable 7 (DS_READABLE (descriptor_status w0 7)) acts" by simp
  with again show ?thesis
    by (simp add: r2_def w2_def r1_def w0_def acts_def ev_def)
qed

end
